theory Spec2Isabelle
  imports Main
begin

section \<open>Strings\<close>

text \<open>
  A JavaScript string is modelled as a \<^typ>\<open>string\<close>: the bytes of its UTF-8 encoding,
  the string being well-formed UTF-16. An ASCII character is one byte, and that byte
  occurs in no other character, so a search for an ASCII character in the bytes finds
  exactly its occurrences; a character outside ASCII begins with a lead byte that occurs
  nowhere else in a character, so a sequence of bytes that is a character matches only at
  that character.
\<close>

abbreviation dquote :: char where
  "dquote \<equiv> CHR 0x22"

abbreviation newline :: char where
  "newline \<equiv> CHR 0x0A"

text \<open>\<^verbatim>\<open>Array.prototype.join\<close>: the elements with the separator between them.\<close>

fun join :: "string \<Rightarrow> string list \<Rightarrow> string" where
  "join sep [] = []"
| "join sep [x] = x"
| "join sep (x # y # ys) = x @ sep @ join sep (y # ys)"

text \<open>The decimal rendering of a non-negative integer, as a template literal prints it.\<close>

definition digit :: "nat \<Rightarrow> char" where
  "digit d =
     (if d = 0 then CHR ''0'' else if d = 1 then CHR ''1'' else if d = 2 then CHR ''2''
      else if d = 3 then CHR ''3'' else if d = 4 then CHR ''4'' else if d = 5 then CHR ''5''
      else if d = 6 then CHR ''6'' else if d = 7 then CHR ''7'' else if d = 8 then CHR ''8''
      else CHR ''9'')"

fun dec :: "nat \<Rightarrow> string" where
  "dec n = (if n < 10 then [digit n] else dec (n div 10) @ [digit (n mod 10)])"

declare dec.simps [simp del]

section \<open>The CSV encoder\<close>

record WishlistItem =
  itemName :: string
  manufacturer :: string
  options :: "string list"
  productLink :: string
  nonAmazonLink :: string

text \<open>\<^verbatim>\<open>field.includes(c)\<close> for a one-character needle.\<close>

definition includes_chr :: "string \<Rightarrow> char \<Rightarrow> bool" where
  "includes_chr field c = (c \<in> set field)"

text \<open>\<^verbatim>\<open>field.replace(/"/g, '""')\<close>: every double quote is written twice.\<close>

fun replace_quotes :: "string \<Rightarrow> string" where
  "replace_quotes [] = []"
| "replace_quotes (c # cs) =
     (if c = dquote then dquote # dquote # replace_quotes cs else c # replace_quotes cs)"

definition escapeCSV :: "string \<Rightarrow> string" where
  "escapeCSV field =
     (if includes_chr field dquote \<or> includes_chr field (CHR '','') \<or> includes_chr field newline
      then [dquote] @ replace_quotes field @ [dquote]
      else field)"

text \<open>\<^verbatim>\<open>items.reduce((max, item) => Math.max(max, item.options.length), 0)\<close>\<close>

definition maxOptions :: "WishlistItem list \<Rightarrow> nat" where
  "maxOptions items = foldl (\<lambda>m item. max m (length (options item))) 0 items"

text \<open>The template literal \<^verbatim>\<open>`Option ${i}`\<close>.\<close>

definition optionColumn :: "nat \<Rightarrow> string" where
  "optionColumn i = ''Option '' @ dec i"

text \<open>
  The loop \<^verbatim>\<open>for (let i = 1; i <= maxOptions; i++) headerColumns.push(`Option ${i}`)\<close>.
\<close>

function pushOptionColumns :: "nat \<Rightarrow> nat \<Rightarrow> string list \<Rightarrow> string list" where
  "pushOptionColumns i n cols =
     (if i \<le> n then pushOptionColumns (i + 1) n (cols @ [optionColumn i]) else cols)"
  by pat_completeness auto
termination
  by (relation "measure (\<lambda>(i, n, cols). Suc n - i)") auto

declare pushOptionColumns.simps [simp del]

definition headerColumns :: "nat \<Rightarrow> string list" where
  "headerColumns n =
     pushOptionColumns 1 n [''Item Name'', ''Manufacturer'', ''Product Link'', ''Non-Amazon Link'']"

text \<open>
  \<^verbatim>\<open>item.options[i] || ""\<close>: an index past the end reads \<^verbatim>\<open>undefined\<close>, which is
  falsy, as the empty string is.
\<close>

definition optionSlot :: "string list \<Rightarrow> nat \<Rightarrow> string" where
  "optionSlot opts i = (if i < length opts \<and> opts ! i \<noteq> [] then opts ! i else [])"

definition itemRow :: "nat \<Rightarrow> WishlistItem \<Rightarrow> string list" where
  "itemRow n item =
     [escapeCSV (itemName item), escapeCSV (manufacturer item),
      escapeCSV (productLink item), escapeCSV (nonAmazonLink item)]
     @ map (\<lambda>i. escapeCSV (optionSlot (options item) i)) [0..<n]"

definition csvRows :: "WishlistItem list \<Rightarrow> string list" where
  "csvRows items =
     (let n = maxOptions items
      in join '','' (map escapeCSV (headerColumns n)) # map (\<lambda>item. join '','' (itemRow n item)) items)"

definition csvData :: "WishlistItem list \<Rightarrow> string" where
  "csvData items = join [newline] (csvRows items)"

text \<open>The rule of the specification, in its words, to compare the encoder with.\<close>

definition spec_needs_quoting :: "string \<Rightarrow> bool" where
  "spec_needs_quoting field =
     (dquote \<in> set field \<or> CHR '','' \<in> set field \<or> newline \<in> set field)"

definition spec_quoted :: "string \<Rightarrow> string" where
  "spec_quoted field =
     [dquote] @ concat (map (\<lambda>c. if c = dquote then [dquote, dquote] else [c]) field) @ [dquote]"

definition spec_maxOptions :: "WishlistItem list \<Rightarrow> nat" where
  "spec_maxOptions items =
     (if items = [] then 0 else Max ((\<lambda>item. length (options item)) ` set items))"

definition spec_field :: "string \<Rightarrow> string" where
  "spec_field field = (if spec_needs_quoting field then spec_quoted field else field)"

text \<open>
  The names Option 1, Option 2 and so on, by counting: the numeral of a number is the
  successor of the numeral of the number before. The successor is taken on the numeral
  written with its last digit first.
\<close>

definition spec_next :: "char \<Rightarrow> char" where
  "spec_next c =
     (if c = CHR ''0'' then CHR ''1'' else if c = CHR ''1'' then CHR ''2''
      else if c = CHR ''2'' then CHR ''3'' else if c = CHR ''3'' then CHR ''4''
      else if c = CHR ''4'' then CHR ''5'' else if c = CHR ''5'' then CHR ''6''
      else if c = CHR ''6'' then CHR ''7'' else if c = CHR ''7'' then CHR ''8''
      else CHR ''9'')"

fun spec_successor :: "string \<Rightarrow> string" where
  "spec_successor [] = ''1''"
| "spec_successor (c # cs) =
     (if c = CHR ''9'' then CHR ''0'' # spec_successor cs else spec_next c # cs)"

fun spec_numeral :: "nat \<Rightarrow> string" where
  "spec_numeral 0 = ''0''"
| "spec_numeral (Suc n) = rev (spec_successor (rev (spec_numeral n)))"

definition spec_header :: "nat \<Rightarrow> string list" where
  "spec_header n =
     [''Item Name'', ''Manufacturer'', ''Product Link'', ''Non-Amazon Link'']
     @ map (\<lambda>i. ''Option '' @ spec_numeral i) [1..<Suc n]"

section \<open>White space, trimming and splitting\<close>

text \<open>\<^verbatim>\<open>s.startsWith(p)\<close>\<close>

fun startsWith :: "string \<Rightarrow> string \<Rightarrow> bool" where
  "startsWith s [] = True"
| "startsWith [] (p # ps) = False"
| "startsWith (c # cs) (p # ps) = (c = p \<and> startsWith cs ps)"

text \<open>
  The white space and line terminator characters of ECMAScript, which
  \<^verbatim>\<open>String.prototype.trim\<close> removes and \<^verbatim>\<open>\s\<close> matches, each as its UTF-8 bytes:
  U+0009 to U+000D, U+0020, U+00A0, U+1680, U+2000 to U+200A, U+2028, U+2029, U+202F,
  U+205F, U+3000 and U+FEFF.
\<close>

definition whiteSpace :: "string list" where
  "whiteSpace =
     [[CHR 0x09], [CHR 0x0A], [CHR 0x0B], [CHR 0x0C], [CHR 0x0D], [CHR 0x20],
      [CHR 0xC2, CHR 0xA0], [CHR 0xE1, CHR 0x9A, CHR 0x80],
      [CHR 0xE2, CHR 0x80, CHR 0x80], [CHR 0xE2, CHR 0x80, CHR 0x81],
      [CHR 0xE2, CHR 0x80, CHR 0x82], [CHR 0xE2, CHR 0x80, CHR 0x83],
      [CHR 0xE2, CHR 0x80, CHR 0x84], [CHR 0xE2, CHR 0x80, CHR 0x85],
      [CHR 0xE2, CHR 0x80, CHR 0x86], [CHR 0xE2, CHR 0x80, CHR 0x87],
      [CHR 0xE2, CHR 0x80, CHR 0x88], [CHR 0xE2, CHR 0x80, CHR 0x89],
      [CHR 0xE2, CHR 0x80, CHR 0x8A], [CHR 0xE2, CHR 0x80, CHR 0xA8],
      [CHR 0xE2, CHR 0x80, CHR 0xA9], [CHR 0xE2, CHR 0x80, CHR 0xAF],
      [CHR 0xE2, CHR 0x81, CHR 0x9F], [CHR 0xE3, CHR 0x80, CHR 0x80],
      [CHR 0xEF, CHR 0xBB, CHR 0xBF]]"

text \<open>Removing the leading characters of a set, each given by its byte sequence.\<close>

function stripLeading :: "string list \<Rightarrow> string \<Rightarrow> string" where
  "stripLeading ws s =
     (case find (\<lambda>w. w \<noteq> [] \<and> startsWith s w) ws of
        None \<Rightarrow> s
      | Some w \<Rightarrow> stripLeading ws (drop (length w) s))"
  by pat_completeness auto
termination
proof (relation "measure (\<lambda>(ws, s). length s)")
  fix ws :: "string list" and s w :: string
  assume "find (\<lambda>w. w \<noteq> [] \<and> startsWith s w) ws = Some w"
  then have "w \<noteq> []" and "startsWith s w"
    by (auto simp: find_Some_iff)
  then have "s \<noteq> []"
    by (cases s; cases w) auto
  with \<open>w \<noteq> []\<close> show "((ws, drop (length w) s), (ws, s)) \<in> measure (\<lambda>(ws, s). length s)"
    by simp
qed simp

declare stripLeading.simps [simp del]

definition trimStart :: "string \<Rightarrow> string" where
  "trimStart s = stripLeading whiteSpace s"

definition trimEnd :: "string \<Rightarrow> string" where
  "trimEnd s = rev (stripLeading (map rev whiteSpace) (rev s))"

definition trim :: "string \<Rightarrow> string" where
  "trim s = trimEnd (trimStart s)"

text \<open>Whether a white space character occurs anywhere in the string.\<close>

fun hasWhiteSpace :: "string \<Rightarrow> bool" where
  "hasWhiteSpace [] = False"
| "hasWhiteSpace (c # cs) = (list_ex (startsWith (c # cs)) whiteSpace \<or> hasWhiteSpace cs)"

text \<open>\<^verbatim>\<open>s.split(sep)\<close> for a one-character separator: always at least one piece.\<close>

fun splitOn :: "char \<Rightarrow> string \<Rightarrow> string list" where
  "splitOn sep [] = [[]]"
| "splitOn sep (c # cs) =
     (if c = sep then [] # splitOn sep cs
      else (case splitOn sep cs of [] \<Rightarrow> [[c]] | p # ps \<Rightarrow> (c # p) # ps))"

section \<open>The wishlist URLs of the prompt\<close>

definition wishlistPrefix :: string where
  "wishlistPrefix = ''https://www.amazon.com/hz/wishlist/ls/''"

text \<open>
  \<^verbatim>\<open>inputUrl.trim() ? inputUrl.split(",").map(url => url.trim()).filter(url =>
  url.startsWith("https://www.amazon.com/hz/wishlist/ls/")) : []\<close>
\<close>

definition wishlistUrls :: "string \<Rightarrow> string list" where
  "wishlistUrls inputUrl =
     (if trim inputUrl \<noteq> []
      then filter (\<lambda>url. startsWith url wishlistPrefix) (map trim (splitOn (CHR '','') inputUrl))
      else [])"

section \<open>The platform's URL objects\<close>

text \<open>
  \<^verbatim>\<open>URL\<close> and \<^verbatim>\<open>URLSearchParams\<close> belong to the runtime, not to the repository. Their
  parser of scheme, host and path is taken as a parameter \<open>parseURL\<close>: given the string and
  the base it returns \<open>None\<close> where \<^verbatim>\<open>new URL\<close> throws, and otherwise the serialised part
  before the query (scheme, credentials, host, port and path), whether the path is
  opaque, the query and the fragment. What the code does with the result, the list of
  query parameters, its updates of the URL and the serialisation, follows the URL
  standard.
\<close>

type_synonym urlParser =
  "string \<Rightarrow> string \<Rightarrow> (string \<times> bool \<times> string option \<times> string option) option"

record URL =
  front :: string
  opaquePath :: bool
  query :: "string option"
  fragment :: "string option"
  searchParams :: "(string \<times> string) list"

definition byte :: "char \<Rightarrow> nat" where
  "byte c = of_char c"

definition isAlnum :: "char \<Rightarrow> bool" where
  "isAlnum c =
     ((48 \<le> byte c \<and> byte c \<le> 57) \<or> (65 \<le> byte c \<and> byte c \<le> 90)
      \<or> (97 \<le> byte c \<and> byte c \<le> 122))"

definition isHexDigit :: "char \<Rightarrow> bool" where
  "isHexDigit c =
     ((48 \<le> byte c \<and> byte c \<le> 57) \<or> (65 \<le> byte c \<and> byte c \<le> 70)
      \<or> (97 \<le> byte c \<and> byte c \<le> 102))"

definition hexValue :: "char \<Rightarrow> nat" where
  "hexValue c =
     (if byte c \<le> 57 then byte c - 48 else if byte c \<le> 70 then byte c - 55 else byte c - 87)"

definition hexDigit :: "nat \<Rightarrow> char" where
  "hexDigit d = (if d < 10 then char_of (48 + d) else char_of (55 + d))"

text \<open>Percent-decoding of a byte sequence.\<close>

fun percentDecode :: "string \<Rightarrow> string" where
  "percentDecode [] = []"
| "percentDecode [c] = [c]"
| "percentDecode [c, d] = [c, d]"
| "percentDecode (c # h1 # h2 # rest) =
     (if c = CHR ''%'' \<and> isHexDigit h1 \<and> isHexDigit h2
      then char_of (hexValue h1 * 16 + hexValue h2) # percentDecode rest
      else c # percentDecode (h1 # h2 # rest))"

text \<open>
  UTF-8 decoding without BOM, on strings kept as UTF-8 bytes: a well-formed sequence
  stays, and each ill-formed part the decoder reports becomes U+FFFD, whose bytes are
  EF BF BD.
\<close>

definition replacementChar :: string where
  "replacementChar = [CHR 0xEF, CHR 0xBF, CHR 0xBD]"

definition inRange :: "nat \<Rightarrow> nat \<Rightarrow> char \<Rightarrow> bool" where
  "inRange lower upper c = (lower \<le> byte c \<and> byte c \<le> upper)"

text \<open>
  The decoder reads a lead byte, which fixes how many continuation bytes are needed and
  the bounds of the first of them, and then the continuation bytes. A byte out of its
  bounds ends the character with an error and is read again as the start of the next.
\<close>

fun readContinuation :: "nat \<Rightarrow> nat \<Rightarrow> nat \<Rightarrow> string \<Rightarrow> string \<Rightarrow> string \<times> string" where
  "readContinuation 0 lower upper seen bs = (seen, bs)"
| "readContinuation (Suc needed) lower upper seen [] = (replacementChar, [])"
| "readContinuation (Suc needed) lower upper seen (c # cs) =
     (if inRange lower upper c then readContinuation needed 0x80 0xBF (seen @ [c]) cs
      else (replacementChar, c # cs))"

definition utf8Unit :: "char \<Rightarrow> string \<Rightarrow> string \<times> string" where
  "utf8Unit b bs =
     (if byte b < 0x80 then ([b], bs)
      else if inRange 0xC2 0xDF b then readContinuation 1 0x80 0xBF [b] bs
      else if inRange 0xE0 0xEF b then
        readContinuation 2 (if byte b = 0xE0 then 0xA0 else 0x80)
          (if byte b = 0xED then 0x9F else 0xBF) [b] bs
      else if inRange 0xF0 0xF4 b then
        readContinuation 3 (if byte b = 0xF0 then 0x90 else 0x80)
          (if byte b = 0xF4 then 0x8F else 0xBF) [b] bs
      else (replacementChar, bs))"

lemma readContinuation_rest:
  "length (snd (readContinuation needed lower upper seen bs)) \<le> length bs"
  by (induction needed lower upper seen bs rule: readContinuation.induct) auto

lemma utf8Unit_rest: "length (snd (utf8Unit b bs)) \<le> length bs"
  by (simp add: utf8Unit_def readContinuation_rest)

function utf8Decode :: "string \<Rightarrow> string" where
  "utf8Decode [] = []"
| "utf8Decode (b # bs) = fst (utf8Unit b bs) @ utf8Decode (snd (utf8Unit b bs))"
  by pat_completeness auto
termination
  by (relation "measure length") (simp_all add: utf8Unit_rest le_imp_less_Suc)

text \<open>
  The \<^verbatim>\<open>application/x-www-form-urlencoded\<close> parser: the pieces between ampersands, the
  empty ones skipped, each split at its first equals sign, plus signs read as spaces,
  then percent-decoded and UTF-8 decoded.
\<close>

definition plusToSpace :: "char \<Rightarrow> char" where
  "plusToSpace c = (if c = CHR ''+'' then CHR '' '' else c)"

definition decodeComponent :: "string \<Rightarrow> string" where
  "decodeComponent s = utf8Decode (percentDecode (map plusToSpace s))"

definition parseTuple :: "string \<Rightarrow> string \<times> string" where
  "parseTuple piece =
     (if CHR ''='' \<in> set piece
      then (decodeComponent (takeWhile (\<lambda>c. c \<noteq> CHR ''='') piece),
            decodeComponent (tl (dropWhile (\<lambda>c. c \<noteq> CHR ''='') piece)))
      else (decodeComponent piece, decodeComponent []))"

definition urlencodedParse :: "string \<Rightarrow> (string \<times> string) list" where
  "urlencodedParse input = map parseTuple (filter (\<lambda>piece. piece \<noteq> []) (splitOn (CHR ''&'') input))"

text \<open>
  The serialiser: a space becomes a plus sign; the ASCII letters and digits and
  \<^verbatim>\<open>* - . _\<close> stay; every other byte is percent-encoded with upper-case digits.
\<close>

definition urlencodeByte :: "char \<Rightarrow> string" where
  "urlencodeByte c =
     (if c = CHR '' '' then [CHR ''+'']
      else if isAlnum c \<or> c = CHR ''*'' \<or> c = CHR ''-'' \<or> c = CHR ''.'' \<or> c = CHR ''_'' then [c]
      else [CHR ''%'', hexDigit (byte c div 16), hexDigit (byte c mod 16)])"

definition urlencode :: "string \<Rightarrow> string" where
  "urlencode s = concat (map urlencodeByte s)"

definition serializeTuple :: "string \<times> string \<Rightarrow> string" where
  "serializeTuple t = urlencode (fst t) @ [CHR ''=''] @ urlencode (snd t)"

definition urlencodedSerialize :: "(string \<times> string) list \<Rightarrow> string" where
  "urlencodedSerialize tuples = join ''&'' (map serializeTuple tuples)"

text \<open>
  \<^verbatim>\<open>new URL(href, base)\<close>: the parameter list of the object is read from the query when
  the object is made.
\<close>

definition newURL :: "urlParser \<Rightarrow> string \<Rightarrow> string \<Rightarrow> URL option" where
  "newURL parseURL href base =
     (case parseURL href base of
        None \<Rightarrow> None
      | Some (fr, opaque, q, fg) \<Rightarrow>
          Some \<lparr>front = fr, opaquePath = opaque, query = q, fragment = fg,
                searchParams = urlencodedParse (case q of None \<Rightarrow> [] | Some s \<Rightarrow> s)\<rparr>)"

text \<open>
  Potentially stripping the trailing spaces of an opaque path: done when the path is
  opaque and both the fragment and the query are null. A URL with an opaque path has no
  host, so its part before the query is the scheme, a colon and the path, and the
  trailing spaces of the path are those of that part.
\<close>

definition stripTrailingSpaces :: "URL \<Rightarrow> URL" where
  "stripTrailingSpaces u =
     (if opaquePath u \<and> fragment u = None \<and> query u = None
      then u\<lparr>front := rev (dropWhile (\<lambda>c. c = CHR '' '') (rev (front u)))\<rparr>
      else u)"

text \<open>
  The update steps of a parameter list: the URL's query becomes the serialised list, or
  null when that is empty, and with a null query the trailing spaces of an opaque path
  are potentially stripped.
\<close>

definition updateQuery :: "URL \<Rightarrow> URL" where
  "updateQuery u =
     (let serialized = urlencodedSerialize (searchParams u)
      in if serialized = [] then stripTrailingSpaces (u\<lparr>query := None\<rparr>)
         else u\<lparr>query := Some serialized\<rparr>)"

text \<open>\<^verbatim>\<open>url.searchParams.delete(name)\<close>: every tuple of that name is removed.\<close>

definition searchParams_delete :: "string \<Rightarrow> URL \<Rightarrow> URL" where
  "searchParams_delete name u =
     updateQuery (u\<lparr>searchParams := filter (\<lambda>t. fst t \<noteq> name) (searchParams u)\<rparr>)"

text \<open>
  \<^verbatim>\<open>url.searchParams.set(name, value)\<close>: the first tuple of that name takes the value and
  the others of that name are removed; with no such tuple, one is appended.
\<close>

fun setFirst :: "string \<Rightarrow> string \<Rightarrow> (string \<times> string) list \<Rightarrow> (string \<times> string) list" where
  "setFirst name v [] = []"
| "setFirst name v (t # ts) =
     (if fst t = name then (name, v) # filter (\<lambda>t. fst t \<noteq> name) ts
      else t # setFirst name v ts)"

definition setTuple :: "string \<Rightarrow> string \<Rightarrow> (string \<times> string) list \<Rightarrow> (string \<times> string) list" where
  "setTuple name v tuples =
     (if list_ex (\<lambda>t. fst t = name) tuples then setFirst name v tuples
      else tuples @ [(name, v)])"

definition searchParams_set :: "string \<Rightarrow> string \<Rightarrow> URL \<Rightarrow> URL" where
  "searchParams_set name v u = updateQuery (u\<lparr>searchParams := setTuple name v (searchParams u)\<rparr>)"

text \<open>\<^verbatim>\<open>url.toString()\<close>: the URL serialiser.\<close>

definition toString :: "URL \<Rightarrow> string" where
  "toString u =
     front u
     @ (case query u of None \<Rightarrow> [] | Some q \<Rightarrow> CHR ''?'' # q)
     @ (case fragment u of None \<Rightarrow> [] | Some f \<Rightarrow> CHR ''#'' # f)"

section \<open>The URL normalizer\<close>

definition amazonOrigin :: string where
  "amazonOrigin = ''https://www.amazon.com''"

text \<open>
  The body of the \<^verbatim>\<open>try\<close> block that builds \<^verbatim>\<open>productLink\<close>, up to the three calls on
  the parameter list; \<open>None\<close> where \<^verbatim>\<open>new URL\<close> throws.
\<close>

definition normalizedURL :: "urlParser \<Rightarrow> string \<Rightarrow> URL option" where
  "normalizedURL parseURL href =
     (case newURL parseURL href amazonOrigin of
        None \<Rightarrow> None
      | Some fullUrl \<Rightarrow>
          Some (searchParams_set ''th'' ''1''
                  (searchParams_delete ''ref_'' (searchParams_delete ''psc'' fullUrl))))"

definition normalizeLink :: "urlParser \<Rightarrow> string \<Rightarrow> string option" where
  "normalizeLink parseURL href = map_option toString (normalizedURL parseURL href)"

text \<open>
  The parameters that the query of a URL holds for whoever reads the serialised URL: the
  query, parsed.
\<close>

definition queryParameters :: "URL \<Rightarrow> (string \<times> string) list" where
  "queryParameters u = urlencodedParse (case query u of None \<Rightarrow> [] | Some q \<Rightarrow> q)"

text \<open>
  What the platform's parser returns on the product link of the specification's
  scenario, on the normalised form of it, and on a link with an opaque path that ends in
  a space, for the examples below.
\<close>

definition exampleParser :: urlParser where
  "exampleParser href base =
     (if href = ''/dp/B000X?psc=1&ref_=abc''
      then Some (base @ ''/dp/B000X'', False, Some ''psc=1&ref_=abc'', None)
      else if href = ''https://www.amazon.com/dp/B000X?th=1''
      then Some (''https://www.amazon.com/dp/B000X'', False, Some ''th=1'', None)
      else if href = ''data:space ?psc=1''
      then Some (''data:space '', True, Some ''psc=1'', None)
      else None)"

section \<open>The item extractor\<close>

text \<open>
  What the DOM queries of the loop body find on one item element: whether the
  \<^verbatim>\<open>NON_ASIN\<close> marker is there, the inner text of the name span, the inner text and
  \<^verbatim>\<open>href\<close> attribute of the name anchor, the inner text of the byline, and the inner
  texts of the \<^verbatim>\<open>twisterText\<close> spans. \<open>None\<close> is an element or attribute that is absent.
\<close>

record itemElement =
  nonAsin :: bool
  nameSpan :: "string option"
  nameAnchor :: "(string \<times> string option) option"
  byline :: "string option"
  twisterTexts :: "string list"

definition asciiLower :: "char \<Rightarrow> char" where
  "asciiLower c = (if 65 \<le> byte c \<and> byte c \<le> 90 then char_of (byte c + 32) else c)"

definition nonSpaces :: "string \<Rightarrow> bool" where
  "nonSpaces s = (s \<noteq> [] \<and> \<not> hasWhiteSpace s)"

text \<open>\<^verbatim>\<open>/^https?:\/\/[^\s]+$/i.test(text)\<close>\<close>

definition urlRegex_test :: "string \<Rightarrow> bool" where
  "urlRegex_test text =
     ((startsWith (map asciiLower text) ''http://'' \<and> nonSpaces (drop 7 text))
      \<or> (startsWith (map asciiLower text) ''https://'' \<and> nonSpaces (drop 8 text)))"

definition emptyItem :: WishlistItem where
  "emptyItem = \<lparr>itemName = [], manufacturer = [], options = [], productLink = [], nonAmazonLink = []\<rparr>"

definition scrapeItem :: "urlParser \<Rightarrow> itemElement \<Rightarrow> WishlistItem" where
  "scrapeItem parseURL el =
     (if nonAsin el then
        (case nameSpan el of
           None \<Rightarrow> emptyItem
         | Some innerText \<Rightarrow>
             (let text = trim innerText
              in if urlRegex_test text then emptyItem\<lparr>nonAmazonLink := text\<rparr>
                 else emptyItem\<lparr>itemName := text\<rparr>))
      else
        \<lparr>itemName = (case nameAnchor el of None \<Rightarrow> [] | Some (innerText, href) \<Rightarrow> trim innerText),
         manufacturer = (case byline el of None \<Rightarrow> [] | Some innerText \<Rightarrow> trim innerText),
         options = filter (\<lambda>option. option \<noteq> []) (map trim (twisterTexts el)),
         productLink =
           (case nameAnchor el of
              None \<Rightarrow> []
            | Some (innerText, None) \<Rightarrow> []
            | Some (innerText, Some href) \<Rightarrow>
                if href = [] then []
                else (case normalizeLink parseURL href of None \<Rightarrow> [] | Some link \<Rightarrow> link)),
         nonAmazonLink = []\<rparr>)"

text \<open>\<^verbatim>\<open>if (itemName || productLink || nonAmazonLink)\<close>: an empty string is falsy.\<close>

definition retained :: "WishlistItem \<Rightarrow> bool" where
  "retained item = (itemName item \<noteq> [] \<or> productLink item \<noteq> [] \<or> nonAmazonLink item \<noteq> [])"

fun scrapeItems :: "urlParser \<Rightarrow> itemElement list \<Rightarrow> WishlistItem list \<Rightarrow> WishlistItem list" where
  "scrapeItems parseURL [] items = items"
| "scrapeItems parseURL (el # els) items =
     (let item = scrapeItem parseURL el
      in scrapeItems parseURL els (if retained item then items @ [item] else items))"

section \<open>The link resolution fallback\<close>

text \<open>
  The outcome of one search: \<^verbatim>\<open>waitForSelector\<close> timing out, which the \<^verbatim>\<open>catch\<close> absorbs,
  or the first organic anchor with its \<^verbatim>\<open>href\<close> attribute.
\<close>

datatype searchResult = NoOrganicResult | OrganicAnchor "string option"

text \<open>\<^verbatim>\<open>decodeURIComponent\<close> of the runtime, \<open>None\<close> where it throws \<^verbatim>\<open>URIError\<close>.\<close>

type_synonym uriDecoder = "string \<Rightarrow> string option"

definition encodeURIComponent :: "string \<Rightarrow> string" where
  "encodeURIComponent s =
     concat (map (\<lambda>c. if isAlnum c \<or> c \<in> set [CHR ''-'', CHR ''_'', CHR ''.'', CHR ''!'', CHR ''~'',
                                                CHR ''*'', CHR 0x27, CHR ''('', CHR '')'']
                       then [c]
                       else [CHR ''%'', hexDigit (byte c div 16), hexDigit (byte c mod 16)]) s)"

definition duckUrl :: "WishlistItem \<Rightarrow> string" where
  "duckUrl item =
     ''https://duckduckgo.com/?t=h_&q=official+site+''
     @ encodeURIComponent (trim (itemName item @ '' '' @ join '' '' (options item)))
     @ ''++-site%3Aamazon.*&t=h_&ia=web''"

text \<open>\<^verbatim>\<open>href.match(/uddg=([^&]+)/)\<close>: the capture group of the leftmost match.\<close>

fun uddgMatch :: "string \<Rightarrow> string option" where
  "uddgMatch [] = None"
| "uddgMatch (c # cs) =
     (if startsWith (c # cs) ''uddg='' \<and> takeWhile (\<lambda>x. x \<noteq> CHR ''&'') (drop 5 (c # cs)) \<noteq> []
      then Some (takeWhile (\<lambda>x. x \<noteq> CHR ''&'') (drop 5 (c # cs)))
      else uddgMatch cs)"

definition resolveLink :: "uriDecoder \<Rightarrow> searchResult \<Rightarrow> WishlistItem \<Rightarrow> WishlistItem" where
  "resolveLink decodeURIComponent result item =
     (case result of
        NoOrganicResult \<Rightarrow> item
      | OrganicAnchor None \<Rightarrow> item
      | OrganicAnchor (Some href) \<Rightarrow>
          if href = [] then item
          else (case uddgMatch href of
                  Some m \<Rightarrow>
                    (case decodeURIComponent m of
                       None \<Rightarrow> item
                     | Some decodedUrl \<Rightarrow> item\<lparr>nonAmazonLink := decodedUrl\<rparr>)
                | None \<Rightarrow> item\<lparr>nonAmazonLink := href\<rparr>))"

text \<open>
  The loop over the items. \<open>search k url\<close> is what the \<open>k\<close>-th search of this wishlist,
  made at \<open>url\<close>, comes back with.
\<close>

fun resolveLinks ::
  "uriDecoder \<Rightarrow> (nat \<Rightarrow> string \<Rightarrow> searchResult) \<Rightarrow> nat \<Rightarrow> WishlistItem list \<Rightarrow> WishlistItem list" where
  "resolveLinks decodeURIComponent search k [] = []"
| "resolveLinks decodeURIComponent search k (item # items) =
     (if nonAmazonLink item \<noteq> [] then item # resolveLinks decodeURIComponent search k items
      else resolveLink decodeURIComponent (search k (duckUrl item)) item
           # resolveLinks decodeURIComponent search (k + 1) items)"

section \<open>The scroll-completion detector\<close>

text \<open>
  What one look for the \<^verbatim>\<open>End of list\<close> heading finds: no such element (\<^verbatim>\<open>page.$\<close>
  returns null), an element that is not visible, a visible one, or a call that throws.
\<close>

datatype probe = Absent | Hidden | Shown | Threw

definition maxScrolls :: nat where
  "maxScrolls = 30"

text \<open>
  The scrolling loop. \<open>endOfList n\<close> is what the look made after the scroll of the
  iteration with \<^verbatim>\<open>scrollCount\<close> \<open>= n\<close> finds; the \<^verbatim>\<open>catch\<close> ignores a throw. The result is
  \<^verbatim>\<open>endOfListVisible\<close> and \<^verbatim>\<open>scrollCount\<close> when the loop ends.
\<close>

function scrollLoop :: "(nat \<Rightarrow> probe) \<Rightarrow> nat \<Rightarrow> bool \<times> nat" where
  "scrollLoop endOfList scrollCount =
     (if scrollCount < maxScrolls
      then (if endOfList scrollCount = Shown then (True, scrollCount)
            else scrollLoop endOfList (scrollCount + 1))
      else (False, scrollCount))"
  by pat_completeness auto
termination
  by (relation "measure (\<lambda>(endOfList, scrollCount). maxScrolls - scrollCount)") auto

declare scrollLoop.simps [simp del]

text \<open>
  The stabilising loop, run on the looks it takes, each with the value of \<^verbatim>\<open>Date.now()\<close>
  read at it. The loop has no bound of its own: when the looks given run out before the
  threshold is reached, the loop is still waiting.
\<close>

datatype stabilized = Stable | StillWaiting | ScrollFailed

fun stabilize :: "int \<Rightarrow> int \<Rightarrow> (int \<times> probe) list \<Rightarrow> stabilized" where
  "stabilize continuousVisibleTime lastCheck [] =
     (if continuousVisibleTime < 10000 then StillWaiting else Stable)"
| "stabilize continuousVisibleTime lastCheck ((now, look) # looks) =
     (if continuousVisibleTime < 10000
      then (case look of
              Absent \<Rightarrow> stabilize continuousVisibleTime lastCheck looks
            | Shown \<Rightarrow> stabilize (continuousVisibleTime + (now - lastCheck)) now looks
            | Hidden \<Rightarrow> stabilize 0 now looks
            | Threw \<Rightarrow> ScrollFailed)
      else Stable)"

datatype completeness = Complete | Incomplete

datatype detector = Done completeness nat | Stabilizing | DetectorFailed

text \<open>
  The detector: the scrolling loop, then the stabilising loop when the heading was seen.
  \<open>started\<close> is \<^verbatim>\<open>Date.now()\<close> when \<^verbatim>\<open>lastCheck\<close> is initialised. \<open>Done\<close> carries the value
  of \<^verbatim>\<open>scrollCount\<close>.
\<close>

definition scrollToEnd :: "(nat \<Rightarrow> probe) \<Rightarrow> int \<Rightarrow> (int \<times> probe) list \<Rightarrow> detector" where
  "scrollToEnd endOfList started looks =
     (case scrollLoop endOfList 0 of
        (True, scrollCount) \<Rightarrow>
          (case stabilize 0 started looks of
             Stable \<Rightarrow> Done Complete scrollCount
           | StillWaiting \<Rightarrow> Stabilizing
           | ScrollFailed \<Rightarrow> DetectorFailed)
      | (False, scrollCount) \<Rightarrow> Done Incomplete scrollCount)"

section \<open>The wishlist pipeline\<close>

text \<open>
  The CAPTCHA step as the page lets it run: no prompt within the timeout; a prompt but no
  container; a screenshot that could not be converted; no input field; or an answer
  submitted, with whether the prompt is still there afterwards.
\<close>

datatype captchaStep = NoPrompt | NoContainer | ConversionFailed | NoInput | Submitted bool

text \<open>The look for the list name: no element, a call that throws, or the inner text.\<close>

datatype nameProbe = NameAbsent | NameThrew | NameText string

record wishlistPage =
  captcha :: captchaStep
  listName :: nameProbe
  endOfListProbes :: "nat \<Rightarrow> probe"
  stabilizeStarted :: int
  stabilizeLooks :: "(int \<times> probe) list"
  itemElements :: "itemElement list"
  searches :: "nat \<Rightarrow> string \<Rightarrow> searchResult"

text \<open>
  \<^verbatim>\<open>wishlistName.replace(/[^a-zA-Z0-9]/g, "_")\<close> replaces UTF-16 code units. On the UTF-8
  bytes: an ASCII letter or digit stays, another ASCII byte and the lead byte of a two- or
  three-byte character give one underscore, the lead byte of a four-byte character two,
  and a continuation byte none.
\<close>

definition sanitizeByte :: "char \<Rightarrow> string" where
  "sanitizeByte c =
     (if isAlnum c then [c]
      else if byte c < 0x80 then ''_''
      else if byte c < 0xC0 then []
      else if byte c < 0xF0 then ''_''
      else ''__'')"

definition sanitizeName :: "string \<Rightarrow> string" where
  "sanitizeName s = concat (map sanitizeByte s)"

definition resolveListName :: "nameProbe \<Rightarrow> string" where
  "resolveListName look =
     (case look of
        NameText innerText \<Rightarrow> sanitizeName (trim innerText)
      | NameAbsent \<Rightarrow> ''wishlist''
      | NameThrew \<Rightarrow> ''wishlist'')"

text \<open>
  One iteration of the loop over the URLs: it writes a file, given by its name in the
  working directory and its content, or the process exits with a code, or the stabilising
  loop never ends, or the scroll into view, which is outside any \<^verbatim>\<open>try\<close>, throws. The
  navigations and the other DOM queries outside a \<^verbatim>\<open>try\<close> are taken to return.
\<close>

datatype iteration = Wrote string string | Exit nat | Hangs | Throws

definition processWishlist :: "urlParser \<Rightarrow> uriDecoder \<Rightarrow> wishlistPage \<Rightarrow> iteration" where
  "processWishlist parseURL decodeURIComponent page =
     (if captcha page = Submitted True then Exit 1
      else if resolveListName (listName page) = ''wishlist'' then Exit 1
      else (case scrollToEnd (endOfListProbes page) (stabilizeStarted page) (stabilizeLooks page) of
              Stabilizing \<Rightarrow> Hangs
            | DetectorFailed \<Rightarrow> Throws
            | Done flag scrollCount \<Rightarrow>
                Wrote (resolveListName (listName page) @ ''.csv'')
                  (csvData (resolveLinks decodeURIComponent (searches page) 0
                     (scrapeItems parseURL (itemElements page) [])))))"

datatype runStatus = Running | Finished | Exited nat | Hung | Crashed

record run =
  navigated :: "string list"
  files :: "(string \<times> string) list"
  status :: runStatus

text \<open>
  The loop over the wishlist URLs. \<open>web k url\<close> is the page that the \<open>k\<close>-th navigation,
  to \<open>url\<close>, arrives at.
\<close>

fun processAll ::
  "urlParser \<Rightarrow> uriDecoder \<Rightarrow> (nat \<Rightarrow> string \<Rightarrow> wishlistPage) \<Rightarrow> nat \<Rightarrow> string list \<Rightarrow> run \<Rightarrow> run" where
  "processAll parseURL decodeURIComponent web k [] r = r\<lparr>status := Finished\<rparr>"
| "processAll parseURL decodeURIComponent web k (wishlistUrl # rest) r =
     (case processWishlist parseURL decodeURIComponent (web k wishlistUrl) of
        Wrote path csv \<Rightarrow>
          processAll parseURL decodeURIComponent web (k + 1) rest
            (r\<lparr>navigated := navigated r @ [wishlistUrl], files := files r @ [(path, csv)]\<rparr>)
      | Exit code \<Rightarrow> r\<lparr>navigated := navigated r @ [wishlistUrl], status := Exited code\<rparr>
      | Hangs \<Rightarrow> r\<lparr>navigated := navigated r @ [wishlistUrl], status := Hung\<rparr>
      | Throws \<Rightarrow> r\<lparr>navigated := navigated r @ [wishlistUrl], status := Crashed\<rparr>)"

definition main :: "urlParser \<Rightarrow> uriDecoder \<Rightarrow> string \<Rightarrow> (nat \<Rightarrow> string \<Rightarrow> wishlistPage) \<Rightarrow> run" where
  "main parseURL decodeURIComponent inputUrl web =
     (if length (wishlistUrls inputUrl) = 0
      then \<lparr>navigated = [], files = [], status = Exited 1\<rparr>
      else processAll parseURL decodeURIComponent web 0 (wishlistUrls inputUrl)
             \<lparr>navigated = [], files = [], status = Running\<rparr>)"

text \<open>
  A page for the examples below: the CAPTCHA step and the look for the list name as given,
  a heading that never shows, and no items.
\<close>

definition examplePage :: "captchaStep \<Rightarrow> nameProbe \<Rightarrow> wishlistPage" where
  "examplePage step look =
     \<lparr>captcha = step, listName = look, endOfListProbes = (\<lambda>n. Absent), stabilizeStarted = 0,
      stabilizeLooks = [], itemElements = [], searches = (\<lambda>k url. NoOrganicResult)\<rparr>"

section \<open>Notions used in the proofs\<close>

text \<open>
  Looks that all find the heading visible, the first at least \<open>gap\<close> milliseconds after
  \<open>t\<close> and each later one at least 500 milliseconds, the wait of the loop, after the one
  before.
\<close>

fun visibleFrom :: "int \<Rightarrow> int \<Rightarrow> (int \<times> probe) list \<Rightarrow> bool" where
  "visibleFrom gap t [] = True"
| "visibleFrom gap t ((now, look) # looks) =
     (look = Shown \<and> t + gap \<le> now \<and> visibleFrom 500 now looks)"

text \<open>Continuation bytes within their bounds, the first within the bounds given.\<close>

fun contOk :: "nat \<Rightarrow> nat \<Rightarrow> string \<Rightarrow> bool" where
  "contOk lower upper [] = True"
| "contOk lower upper (c # cs) = (inRange lower upper c \<and> contOk 0x80 0xBF cs)"

text \<open>A parameter whose name and value are what UTF-8 decoding leaves unchanged.\<close>

definition decoded :: "string \<times> string \<Rightarrow> bool" where
  "decoded t = (utf8Decode (fst t) = fst t \<and> utf8Decode (snd t) = snd t)"

text \<open>The parameter list of the normalised URL, as a function of the list read from the href.\<close>

definition normalizedParams :: "(string \<times> string) list \<Rightarrow> (string \<times> string) list" where
  "normalizedParams tuples =
     setTuple ''th'' ''1'' (filter (\<lambda>t. fst t \<noteq> ''ref_'') (filter (\<lambda>t. fst t \<noteq> ''psc'') tuples))"

section \<open>Properties of the CSV encoder\<close>

lemma replace_quotes_concat:
  "replace_quotes field = concat (map (\<lambda>c. if c = dquote then [dquote, dquote] else [c]) field)"
  by (induction field) simp_all

lemma length_replace_quotes: "length field \<le> length (replace_quotes field)"
  by (induction field) simp_all

text \<open>
  C5. A field with a double quote, a comma or a newline is wrapped in double quotes with
  every double quote of it doubled; any other field is emitted as it is; and the encoder
  emits the wrapped form for no other field.
\<close>

theorem escapeCSV_quotes_iff:
  "escapeCSV field = (if spec_needs_quoting field then spec_quoted field else field)
   \<and> (escapeCSV field = spec_quoted field) = spec_needs_quoting field"
proof -
  have eq: "escapeCSV field = (if spec_needs_quoting field then spec_quoted field else field)"
    by (simp add: escapeCSV_def includes_chr_def spec_needs_quoting_def spec_quoted_def
        replace_quotes_concat)
  have "length field < length (spec_quoted field)"
    using length_replace_quotes [of field]
    by (simp add: spec_quoted_def replace_quotes_concat [symmetric])
  then have "field \<noteq> spec_quoted field"
    by auto
  with eq show ?thesis
    by auto
qed

lemma escapeCSV_examples:
  "escapeCSV ''Mug, Blue'' = [dquote] @ ''Mug, Blue'' @ [dquote]"
  "escapeCSV (''He said '' @ [dquote] @ ''hi'' @ [dquote])
     = [dquote] @ ''He said '' @ [dquote, dquote] @ ''hi'' @ [dquote, dquote] @ [dquote]"
  "escapeCSV ''Desk Lamp'' = ''Desk Lamp''"
  by (simp_all add: escapeCSV_def includes_chr_def)

lemma foldl_max_Max:
  "foldl (\<lambda>m item. max m (f item)) a xs = Max (insert a (f ` set xs))"
proof (induction xs arbitrary: a)
  case Nil
  then show ?case by simp
next
  case (Cons x xs)
  have "Max (insert (max a (f x)) (f ` set xs)) = Max (insert a (insert (f x) (f ` set xs)))"
    by (cases "set xs = {}") (simp_all add: max.assoc)
  with Cons show ?case by simp
qed

lemma maxOptions_spec: "maxOptions items = spec_maxOptions items"
proof (cases items)
  case Nil
  then show ?thesis by (simp add: maxOptions_def spec_maxOptions_def)
next
  case (Cons x xs)
  then show ?thesis
    by (simp add: maxOptions_def spec_maxOptions_def foldl_max_Max del: foldl_Cons)
qed

lemma pushOptionColumns_map:
  "pushOptionColumns i n cols = cols @ map optionColumn [i..<Suc n]"
proof (induction i n cols rule: pushOptionColumns.induct)
  case (1 i n cols)
  show ?case
  proof (cases "i \<le> n")
    case True
    then have "[i..<Suc n] = i # [i + 1..<Suc n]"
      by (simp add: upt_conv_Cons)
    with True "1" show ?thesis
      by (simp add: pushOptionColumns.simps [of i])
  next
    case False
    then show ?thesis by (simp add: pushOptionColumns.simps [of i])
  qed
qed

lemma digit_next: "m < 9 \<Longrightarrow> digit m \<noteq> CHR ''9'' \<and> spec_next (digit m) = digit (Suc m)"
proof -
  assume "m < 9"
  then have "m = 0 \<or> m = 1 \<or> m = 2 \<or> m = 3 \<or> m = 4 \<or> m = 5 \<or> m = 6 \<or> m = 7 \<or> m = 8"
    by arith
  then show ?thesis
    by (elim disjE) (simp_all add: digit_def spec_next_def)
qed

lemma dec_small: "n < 10 \<Longrightarrow> dec n = [digit n]"
  by (simp add: dec.simps [of n])

lemma dec_big: "\<not> n < 10 \<Longrightarrow> dec n = dec (n div 10) @ [digit (n mod 10)]"
  by (simp add: dec.simps [of n])

lemma digit_values:
  "digit 9 = CHR ''9''" "digit 0 = CHR ''0''" "digit (Suc 0) = CHR ''1''"
  by (simp_all add: digit_def)

lemma rev_dec_Suc: "rev (dec (Suc n)) = spec_successor (rev (dec n))"
proof (induction n rule: less_induct)
  case (less n)
  consider "n < 9" | "n = 9" | "10 \<le> n" "n mod 10 = 9" | "10 \<le> n" "n mod 10 \<noteq> 9"
    by linarith
  then show ?case
  proof cases
    case 1
    then have "dec n = [digit n]" "dec (Suc n) = [digit (Suc n)]"
      by (simp_all add: dec_small)
    with digit_next [OF 1] show ?thesis
      by simp
  next
    case 2
    have "dec (Suc 9) = dec (Suc 0) @ [digit 0]"
      using dec_big [of "Suc 9"] by simp
    moreover have "dec (Suc 0) = [digit (Suc 0)]" "dec 9 = [digit 9]"
      by (simp_all add: dec_small)
    ultimately show ?thesis
      unfolding 2 by (simp add: digit_values)
  next
    case 3
    then have d: "Suc n mod 10 = 0" "Suc n div 10 = Suc (n div 10)"
      by (simp_all add: mod_Suc div_Suc)
    from 3 have "n div 10 < n"
      by simp
    then have ih: "rev (dec (Suc (n div 10))) = spec_successor (rev (dec (n div 10)))"
      by (rule less.IH)
    from 3 have "dec n = dec (n div 10) @ [digit 9]"
      "dec (Suc n) = dec (Suc (n div 10)) @ [digit 0]"
      using dec_big [of n] dec_big [of "Suc n"] d by simp_all
    with ih show ?thesis
      by (simp add: digit_values)
  next
    case 4
    have "n mod 10 < 10"
      by simp
    with 4 have d: "n mod 10 < 9" "Suc n mod 10 = Suc (n mod 10)" "Suc n div 10 = n div 10"
      by (simp_all add: mod_Suc div_Suc)
    from 4 have "dec n = dec (n div 10) @ [digit (n mod 10)]"
      "dec (Suc n) = dec (n div 10) @ [digit (Suc (n mod 10))]"
      using dec_big [of n] dec_big [of "Suc n"] d by simp_all
    with digit_next [OF d(1)] show ?thesis
      by simp
  qed
qed

lemma dec_spec: "dec n = spec_numeral n"
proof (induction n)
  case 0
  then show ?case by (simp add: dec.simps [of 0] digit_def)
next
  case (Suc n)
  have "dec (Suc n) = rev (rev (dec (Suc n)))"
    by simp
  also have "\<dots> = rev (spec_successor (rev (dec n)))"
    by (simp only: rev_dec_Suc)
  finally show ?case
    using Suc by simp
qed

lemma headerColumns_map:
  "headerColumns n =
     [''Item Name'', ''Manufacturer'', ''Product Link'', ''Non-Amazon Link'']
     @ map optionColumn [1..<Suc n]"
  by (simp add: headerColumns_def pushOptionColumns_map)

lemma escapeCSV_spec_field: "escapeCSV field = spec_field field"
  by (simp add: escapeCSV_def includes_chr_def spec_field_def spec_needs_quoting_def
      spec_quoted_def replace_quotes_concat)

lemma digit_plain: "digit d \<noteq> dquote \<and> digit d \<noteq> CHR '','' \<and> digit d \<noteq> newline"
  by (simp add: digit_def)

lemma dec_plain: "c \<in> set (dec n) \<Longrightarrow> c \<noteq> dquote \<and> c \<noteq> CHR '','' \<and> c \<noteq> newline"
proof (induction n rule: dec.induct)
  case (1 n)
  then show ?case
    using digit_plain by (subst (asm) dec.simps) (auto split: if_splits)
qed

lemma escapeCSV_plain:
  "dquote \<notin> set s \<Longrightarrow> CHR '','' \<notin> set s \<Longrightarrow> newline \<notin> set s \<Longrightarrow> escapeCSV s = s"
  by (simp add: escapeCSV_def includes_chr_def)

lemma escapeCSV_option_column: "escapeCSV (optionColumn k) = optionColumn k"
  unfolding optionColumn_def using dec_plain [of _ k] by (intro escapeCSV_plain) auto

lemma escapeCSV_fixed_columns:
  "escapeCSV ''Item Name'' = ''Item Name''" "escapeCSV ''Manufacturer'' = ''Manufacturer''"
  "escapeCSV ''Product Link'' = ''Product Link''"
  "escapeCSV ''Non-Amazon Link'' = ''Non-Amazon Link''"
  by (simp_all add: escapeCSV_def includes_chr_def)

lemma optionColumn_spec: "optionColumn i = ''Option '' @ spec_numeral i"
  by (simp add: optionColumn_def dec_spec)

lemma escapeCSV_header: "map escapeCSV (headerColumns n) = spec_header n"
proof -
  have "map escapeCSV (headerColumns n) = headerColumns n"
    by (simp add: headerColumns_map escapeCSV_option_column escapeCSV_fixed_columns)
  also have "\<dots> = spec_header n"
    unfolding headerColumns_map spec_header_def
    by (simp only: optionColumn_spec [abs_def])
  finally show ?thesis .
qed

lemma length_itemRow: "length (itemRow n item) = 4 + n"
  by (simp add: itemRow_def)

lemma spec_field_empty: "spec_field [] = []"
  by (simp add: spec_field_def spec_needs_quoting_def)

lemma itemRow_option:
  "i < n \<Longrightarrow> itemRow n item ! (4 + i) =
     (if i < length (options item) then spec_field (options item ! i) else [])"
  by (simp add: itemRow_def optionSlot_def nth_append escapeCSV_spec_field spec_field_empty)

text \<open>
  C6. With N the largest number of options of an item (0 for no items), the header row is
  the four fixed columns followed by Option 1 to Option N, every data row has 4 + N
  fields, the first four being the scalar fields, and the option slots of an item past
  its own options are empty strings.
\<close>

theorem csv_header_and_rows:
  "maxOptions items = spec_maxOptions items
   \<and> map escapeCSV (headerColumns (maxOptions items)) = spec_header (spec_maxOptions items)
   \<and> csvRows items =
       join '','' (spec_header (spec_maxOptions items))
       # map (\<lambda>item. join '','' (itemRow (spec_maxOptions items) item)) items
   \<and> (\<forall>item \<in> set items.
         length (itemRow (maxOptions items) item) = 4 + spec_maxOptions items
         \<and> take 4 (itemRow (maxOptions items) item) =
             [spec_field (itemName item), spec_field (manufacturer item),
              spec_field (productLink item), spec_field (nonAmazonLink item)]
         \<and> (\<forall>i < spec_maxOptions items.
               itemRow (maxOptions items) item ! (4 + i) =
                 (if i < length (options item) then spec_field (options item ! i) else [])))"
proof -
  have rows: "csvRows items =
       join '','' (spec_header (spec_maxOptions items))
       # map (\<lambda>item. join '','' (itemRow (spec_maxOptions items) item)) items"
    by (simp add: csvRows_def Let_def maxOptions_spec escapeCSV_header)
  have first4: "take 4 (itemRow n item) =
             [spec_field (itemName item), spec_field (manufacturer item),
              spec_field (productLink item), spec_field (nonAmazonLink item)]" for n item
    by (simp add: itemRow_def escapeCSV_spec_field)
  show ?thesis
    using rows first4
    by (simp add: maxOptions_spec escapeCSV_header length_itemRow itemRow_option del: upt_Suc)
qed

theorem csv_header_and_rows_witness:
  "maxOptions
     [\<lparr>itemName = ''Desk Lamp'', manufacturer = '''', options = [''Black'', ''US Plug''],
       productLink = ''https://www.amazon.com/dp/B000X?th=1'', nonAmazonLink = ''''\<rparr>,
      \<lparr>itemName = '''', manufacturer = '''', options = [],
       productLink = '''', nonAmazonLink = ''https://maker.example/lamp''\<rparr>] = 2
   \<and> map escapeCSV (headerColumns 2) =
       [''Item Name'', ''Manufacturer'', ''Product Link'', ''Non-Amazon Link'',
        ''Option 1'', ''Option 2'']
   \<and> length (itemRow 2 \<lparr>itemName = '''', manufacturer = '''', options = [],
       productLink = '''', nonAmazonLink = ''https://maker.example/lamp''\<rparr>) = 6
   \<and> itemRow 2 \<lparr>itemName = '''', manufacturer = '''', options = [],
       productLink = '''', nonAmazonLink = ''https://maker.example/lamp''\<rparr> ! 5 = []"
proof -
  let ?lamp = "\<lparr>itemName = ''Desk Lamp'', manufacturer = '''', options = [''Black'', ''US Plug''],
       productLink = ''https://www.amazon.com/dp/B000X?th=1'', nonAmazonLink = ''''\<rparr>"
  let ?link = "\<lparr>itemName = '''', manufacturer = '''', options = [],
       productLink = '''', nonAmazonLink = ''https://maker.example/lamp''\<rparr>"
  note fact = csv_header_and_rows [of "[?lamp, ?link]"]
  note header = fact [THEN conjunct2, THEN conjunct1]
  note rows = fact [THEN conjunct2, THEN conjunct2, THEN conjunct2]
  have n: "spec_maxOptions [?lamp, ?link] = 2"
    by (simp add: spec_maxOptions_def)
  have m: "maxOptions [?lamp, ?link] = 2"
    using fact [THEN conjunct1] n by simp
  have "spec_header 2 =
       [''Item Name'', ''Manufacturer'', ''Product Link'', ''Non-Amazon Link'',
        ''Option 1'', ''Option 2'']"
    by (simp add: spec_header_def spec_next_def eval_nat_numeral)
  with header have h: "map escapeCSV (headerColumns 2) =
       [''Item Name'', ''Manufacturer'', ''Product Link'', ''Non-Amazon Link'',
        ''Option 1'', ''Option 2'']"
    unfolding n m by simp
  have "?link \<in> set [?lamp, ?link]"
    by simp
  from bspec [OF rows this]
  have len: "length (itemRow 2 ?link) = 4 + 2"
    and slots: "\<forall>i<2. itemRow 2 ?link ! (4 + i) =
                 (if i < length (options ?link) then spec_field (options ?link ! i) else [])"
    unfolding n m by blast+
  from slots [rule_format, of 1] have "itemRow 2 ?link ! 5 = []"
    by simp
  with len m h show ?thesis
    by simp
qed

text \<open>The names of the specification, written out up to Option 12.\<close>

lemma spec_header_12:
  "spec_header 12 =
     [''Item Name'', ''Manufacturer'', ''Product Link'', ''Non-Amazon Link'',
      ''Option 1'', ''Option 2'', ''Option 3'', ''Option 4'', ''Option 5'', ''Option 6'',
      ''Option 7'', ''Option 8'', ''Option 9'', ''Option 10'', ''Option 11'', ''Option 12'']"
  by code_simp

text \<open>The end-to-end scenario of the specification, encoded.\<close>

lemma csvData_scenario:
  "csvData
     [\<lparr>itemName = ''Desk Lamp'', manufacturer = '''', options = [''Black'', ''US Plug''],
       productLink = ''https://www.amazon.com/dp/B000X?th=1'', nonAmazonLink = ''''\<rparr>,
      \<lparr>itemName = '''', manufacturer = '''', options = [],
       productLink = '''', nonAmazonLink = ''https://maker.example/lamp''\<rparr>]
   = ''Item Name,Manufacturer,Product Link,Non-Amazon Link,Option 1,Option 2'' @ [newline]
     @ ''Desk Lamp,,https://www.amazon.com/dp/B000X?th=1,,Black,US Plug'' @ [newline]
     @ '',,,https://maker.example/lamp,,''"
  by (simp add: csvData_def csvRows_def maxOptions_def headerColumns_def
      pushOptionColumns.simps optionColumn_def dec.simps digit_def itemRow_def optionSlot_def
      escapeCSV_def includes_chr_def upt_rec)
section \<open>Properties of trimming and of the URL prompt\<close>

lemma startsWith_append: "startsWith s w \<Longrightarrow> s = w @ drop (length w) s"
  by (induction s w rule: startsWith.induct) auto

lemma stripLeading_chars:
  "set s \<subseteq> \<Union> (set ` set ws) \<union> set (stripLeading ws s)"
proof (induction ws s rule: stripLeading.induct)
  case (1 ws s)
  show ?case
  proof (cases "find (\<lambda>w. w \<noteq> [] \<and> startsWith s w) ws")
    case None
    then show ?thesis by (simp add: stripLeading.simps [of ws s])
  next
    case (Some w)
    then have w: "w \<in> set ws" "startsWith s w"
      by (auto simp: find_Some_iff)
    then have "s = w @ drop (length w) s"
      by (simp add: startsWith_append)
    then have "set s = set w \<union> set (drop (length w) s)"
      by (metis set_append)
    moreover have "stripLeading ws s = stripLeading ws (drop (length w) s)"
      using Some by (simp add: stripLeading.simps [of ws s])
    ultimately show ?thesis
      using "1" [OF Some] w(1) by auto
  qed
qed

lemma comma_not_whiteSpace: "CHR '','' \<notin> \<Union> (set ` set whiteSpace)"
  by (simp add: whiteSpace_def)

lemma trim_empty_no_comma:
  assumes "trim s = []"
  shows "CHR '','' \<notin> set s"
proof -
  let ?r = "trimStart s"
  have "stripLeading (map rev whiteSpace) (rev ?r) = []"
    using assms by (simp add: trim_def trimEnd_def)
  with stripLeading_chars [of "rev ?r" "map rev whiteSpace"]
  have "set ?r \<subseteq> \<Union> (set ` set whiteSpace)"
    by auto
  with stripLeading_chars [of s whiteSpace]
  have "set s \<subseteq> \<Union> (set ` set whiteSpace)"
    unfolding trimStart_def by blast
  with comma_not_whiteSpace show ?thesis
    by blast
qed

lemma splitOn_no_sep: "sep \<notin> set s \<Longrightarrow> splitOn sep s = [s]"
  by (induction s) auto

lemma wishlistUrls_filter:
  "wishlistUrls inputUrl =
     filter (\<lambda>url. startsWith url wishlistPrefix) (map trim (splitOn (CHR '','') inputUrl))"
proof (cases "trim inputUrl = []")
  case True
  then have "splitOn (CHR '','') inputUrl = [inputUrl]"
    by (intro splitOn_no_sep trim_empty_no_comma)
  with True show ?thesis
    by (simp add: wishlistUrls_def wishlistPrefix_def)
next
  case False
  then show ?thesis by (simp add: wishlistUrls_def)
qed

section \<open>Properties of the URL normalizer\<close>

lemma readContinuation_out:
  "readContinuation needed lower upper seen bs = (w, t) \<Longrightarrow>
     w = replacementChar \<or>
     (\<exists>cs. length cs = needed \<and> contOk lower upper cs \<and> w = seen @ cs \<and> bs = cs @ t)"
proof (induction needed lower upper seen bs rule: readContinuation.induct)
  case (1 lower upper seen bs)
  then show ?case by simp
next
  case (2 needed lower upper seen)
  then show ?case by simp
next
  case (3 needed lower upper seen c cs)
  show ?case
  proof (cases "inRange lower upper c")
    case True
    with 3 have "w = replacementChar \<or>
       (\<exists>ds. length ds = needed \<and> contOk 0x80 0xBF ds \<and> w = (seen @ [c]) @ ds \<and> cs = ds @ t)"
      by simp
    then show ?thesis
    proof
      assume "w = replacementChar"
      then show ?thesis by simp
    next
      assume "\<exists>ds. length ds = needed \<and> contOk 0x80 0xBF ds \<and> w = (seen @ [c]) @ ds \<and> cs = ds @ t"
      then obtain ds where "length ds = needed" "contOk 0x80 0xBF ds" "w = (seen @ [c]) @ ds" "cs = ds @ t"
        by blast
      with True have "length (c # ds) = Suc needed \<and> contOk lower upper (c # ds)
          \<and> w = seen @ (c # ds) \<and> c # cs = (c # ds) @ t"
        by simp
      then show ?thesis by blast
    qed
  next
    case False
    with 3 show ?thesis by simp
  qed
qed

lemma readContinuation_in:
  "length cs = needed \<Longrightarrow> contOk lower upper cs \<Longrightarrow>
     readContinuation needed lower upper seen (cs @ s) = (seen @ cs, s)"
  by (induction needed lower upper seen cs rule: readContinuation.induct) auto

lemma utf8Unit_replacement:
  "utf8Unit (CHR 0xEF) ([CHR 0xBF, CHR 0xBD] @ s) = (replacementChar, s)"
  by (simp add: utf8Unit_def inRange_def byte_def replacementChar_def eval_nat_numeral)

lemma utf8Unit_reread:
  assumes "utf8Unit b bs = (w, t)"
  shows "w \<noteq> [] \<and> utf8Unit (hd w) (tl w @ s) = (w, s)"
proof -
  have rep: "replacementChar \<noteq> [] \<and> utf8Unit (hd replacementChar) (tl replacementChar @ s) = (replacementChar, s)"
    using utf8Unit_replacement [of s] by (simp add: replacementChar_def)
  have cont: "w \<noteq> [] \<and> utf8Unit (hd w) (tl w @ s) = (w, s)"
    if rc: "readContinuation needed lower upper [b] bs = (w, t)"
      and unit: "\<And>r. utf8Unit b r = readContinuation needed lower upper [b] r"
    for needed lower upper
  proof -
    from readContinuation_out [OF rc] show ?thesis
    proof
      assume "w = replacementChar"
      with rep show ?thesis by simp
    next
      assume "\<exists>cs. length cs = needed \<and> contOk lower upper cs \<and> w = [b] @ cs \<and> bs = cs @ t"
      then obtain cs where cs: "length cs = needed" "contOk lower upper cs" "w = [b] @ cs"
        by blast
      then show ?thesis
        using readContinuation_in [of cs needed lower upper "[b]" s] unit by simp
    qed
  qed
  show ?thesis
  proof (cases "byte b < 0x80")
    case True
    with assms show ?thesis by (auto simp: utf8Unit_def)
  next
    case ascii: False
    show ?thesis
    proof (cases "inRange 0xC2 0xDF b")
      case True
      with ascii assms show ?thesis
        by (intro cont [of 1 "0x80" "0xBF"]) (simp_all add: utf8Unit_def)
    next
      case two: False
      show ?thesis
      proof (cases "inRange 0xE0 0xEF b")
        case True
        with ascii two assms show ?thesis
          by (intro cont [of 2 "if byte b = 0xE0 then 0xA0 else 0x80"
                "if byte b = 0xED then 0x9F else 0xBF"]) (simp_all add: utf8Unit_def)
      next
        case three: False
        show ?thesis
        proof (cases "inRange 0xF0 0xF4 b")
          case True
          with ascii two three assms show ?thesis
            by (intro cont [of 3 "if byte b = 0xF0 then 0x90 else 0x80"
                  "if byte b = 0xF4 then 0x8F else 0xBF"]) (simp_all add: utf8Unit_def)
        next
          case False
          with ascii two three assms rep show ?thesis
            by (simp add: utf8Unit_def)
        qed
      qed
    qed
  qed
qed

lemma utf8Decode_idem: "utf8Decode (utf8Decode s) = utf8Decode s"
proof (induction s rule: utf8Decode.induct)
  case 1
  then show ?case by simp
next
  case (2 b bs)
  obtain w t where wt: "utf8Unit b bs = (w, t)"
    by (cases "utf8Unit b bs")
  from utf8Unit_reread [OF wt, of "utf8Decode t"]
  obtain c cs where w: "w = c # cs" and again: "utf8Unit c (cs @ utf8Decode t) = (w, utf8Decode t)"
    by (cases w) auto
  from 2 wt have "utf8Decode (utf8Decode t) = utf8Decode t"
    by simp
  with wt w again show ?case
    by simp
qed

lemma byte_less: "byte c < 256"
  by (simp add: byte_def)

lemma hexDigit_value: "d < 16 \<Longrightarrow> hexValue (hexDigit d) = d \<and> isHexDigit (hexDigit d)"
  by (auto simp: hexValue_def hexDigit_def isHexDigit_def byte_def)

lemma byte_hexDigit: "d < 16 \<Longrightarrow> byte (hexDigit d) = (if d < 10 then 48 + d else 55 + d)"
  by (simp add: hexDigit_def byte_def)

lemma hexDigit_plain:
  assumes "d < 16"
  shows "hexDigit d \<noteq> CHR ''+'' \<and> hexDigit d \<noteq> CHR ''&'' \<and> hexDigit d \<noteq> CHR ''=''"
proof -
  have "byte (hexDigit d) \<noteq> byte (CHR ''+'') \<and> byte (hexDigit d) \<noteq> byte (CHR ''&'')
      \<and> byte (hexDigit d) \<noteq> byte (CHR ''='')"
    using assms by (simp add: byte_hexDigit) (simp add: byte_def)
  then show ?thesis
    by auto
qed

lemma isAlnum_plain:
  assumes "isAlnum c"
  shows "c \<noteq> CHR ''+'' \<and> c \<noteq> CHR ''%'' \<and> c \<noteq> CHR ''&'' \<and> c \<noteq> CHR ''=''"
proof -
  have "\<not> isAlnum (CHR ''+'') \<and> \<not> isAlnum (CHR ''%'') \<and> \<not> isAlnum (CHR ''&'')
      \<and> \<not> isAlnum (CHR ''='')"
    by (simp add: isAlnum_def byte_def)
  with assms show ?thesis
    by auto
qed

lemma percentDecode_other: "c \<noteq> CHR ''%'' \<Longrightarrow> percentDecode (c # s) = c # percentDecode s"
proof (cases s)
  case Nil
  then show ?thesis by simp
next
  case (Cons d r)
  assume "c \<noteq> CHR ''%''"
  with Cons show ?thesis by (cases r) simp_all
qed

lemma percentDecode_escape:
  "percentDecode (CHR ''%'' # hexDigit (byte c div 16) # hexDigit (byte c mod 16) # s)
     = c # percentDecode s"
proof -
  have "byte c div 16 < 16"
    using byte_less [of c] by simp
  then have hi: "hexValue (hexDigit (byte c div 16)) = byte c div 16"
    "isHexDigit (hexDigit (byte c div 16))"
    using hexDigit_value by blast+
  have lo: "hexValue (hexDigit (byte c mod 16)) = byte c mod 16"
    "isHexDigit (hexDigit (byte c mod 16))"
    using hexDigit_value [of "byte c mod 16"] by simp_all
  have "char_of (byte c div 16 * 16 + byte c mod 16) = c"
    by (simp add: byte_def)
  with hi lo show ?thesis
    by simp
qed

lemma decode_urlencodeByte:
  "percentDecode (map plusToSpace (urlencodeByte c @ s)) = c # percentDecode (map plusToSpace s)"
proof (cases "c = CHR '' ''")
  case True
  then show ?thesis
    by (simp add: urlencodeByte_def plusToSpace_def percentDecode_other)
next
  case space: False
  show ?thesis
  proof (cases "isAlnum c \<or> c = CHR ''*'' \<or> c = CHR ''-'' \<or> c = CHR ''.'' \<or> c = CHR ''_''")
    case True
    then have "c \<noteq> CHR ''+'' \<and> c \<noteq> CHR ''%''"
      using isAlnum_plain [of c] by auto
    with True space show ?thesis
      by (simp add: urlencodeByte_def plusToSpace_def percentDecode_other)
  next
    case False
    have "byte c div 16 < 16"
      using byte_less [of c] by simp
    then have "plusToSpace (hexDigit (byte c div 16)) = hexDigit (byte c div 16)"
      using hexDigit_plain by (simp add: plusToSpace_def)
    moreover have "plusToSpace (hexDigit (byte c mod 16)) = hexDigit (byte c mod 16)"
      using hexDigit_plain [of "byte c mod 16"] by (simp add: plusToSpace_def)
    moreover have "plusToSpace (CHR ''%'') = CHR ''%''"
      by (simp add: plusToSpace_def)
    ultimately have "map plusToSpace (urlencodeByte c @ s) =
        CHR ''%'' # hexDigit (byte c div 16) # hexDigit (byte c mod 16) # map plusToSpace s"
      using False space by (simp add: urlencodeByte_def)
    then show ?thesis
      by (simp only: percentDecode_escape)
  qed
qed

lemma decode_urlencode: "percentDecode (map plusToSpace (urlencode s)) = s"
proof (induction s)
  case Nil
  then show ?case by (simp add: urlencode_def)
next
  case (Cons c s)
  have "urlencode (c # s) = urlencodeByte c @ urlencode s"
    by (simp add: urlencode_def)
  with Cons show ?case
    by (simp add: decode_urlencodeByte del: map_append)
qed

lemma urlencodeByte_plain: "x \<in> set (urlencodeByte c) \<Longrightarrow> x \<noteq> CHR ''&'' \<and> x \<noteq> CHR ''=''"
proof -
  assume x: "x \<in> set (urlencodeByte c)"
  have "byte c div 16 < 16"
    using byte_less [of c] by simp
  then have hi: "hexDigit (byte c div 16) \<noteq> CHR ''&'' \<and> hexDigit (byte c div 16) \<noteq> CHR ''=''"
    using hexDigit_plain by blast
  have lo: "hexDigit (byte c mod 16) \<noteq> CHR ''&'' \<and> hexDigit (byte c mod 16) \<noteq> CHR ''=''"
    using hexDigit_plain [of "byte c mod 16"] by simp
  from x hi lo isAlnum_plain [of c] show ?thesis
    by (auto simp: urlencodeByte_def split: if_splits)
qed

lemma urlencode_plain: "x \<in> set (urlencode s) \<Longrightarrow> x \<noteq> CHR ''&'' \<and> x \<noteq> CHR ''=''"
  using urlencodeByte_plain by (auto simp: urlencode_def)

lemma splitOn_append: "sep \<notin> set x \<Longrightarrow> splitOn sep (x @ sep # r) = x # splitOn sep r"
  by (induction x) auto

lemma splitOn_join:
  "xs \<noteq> [] \<Longrightarrow> \<forall>x \<in> set xs. sep \<notin> set x \<Longrightarrow> splitOn sep (join [sep] xs) = xs"
proof (induction "[sep]" xs rule: join.induct)
  case 1
  then show ?case by simp
next
  case (2 x)
  then show ?case by (simp add: splitOn_no_sep)
next
  case (3 x y ys)
  then show ?case by (simp add: splitOn_append)
qed

lemma takeWhile_until: "a \<notin> set xs \<Longrightarrow> takeWhile (\<lambda>c. c \<noteq> a) (xs @ a # ys) = xs"
  by (induction xs) auto

lemma dropWhile_until: "a \<notin> set xs \<Longrightarrow> dropWhile (\<lambda>c. c \<noteq> a) (xs @ a # ys) = a # ys"
  by (induction xs) auto

lemma decodeComponent_urlencode: "utf8Decode s = s \<Longrightarrow> decodeComponent (urlencode s) = s"
  by (simp add: decodeComponent_def decode_urlencode)

lemma parseTuple_serializeTuple: "decoded t \<Longrightarrow> parseTuple (serializeTuple t) = t"
proof -
  assume d: "decoded t"
  have eq: "CHR ''='' \<notin> set (urlencode (fst t))"
    using urlencode_plain by blast
  then have "takeWhile (\<lambda>c. c \<noteq> CHR ''='') (urlencode (fst t) @ CHR ''='' # urlencode (snd t))
      = urlencode (fst t)"
    by (rule takeWhile_until)
  moreover from eq have "dropWhile (\<lambda>c. c \<noteq> CHR ''='') (urlencode (fst t) @ CHR ''='' # urlencode (snd t))
      = CHR ''='' # urlencode (snd t)"
    by (rule dropWhile_until)
  ultimately show ?thesis
    using d by (simp add: parseTuple_def serializeTuple_def decoded_def decodeComponent_urlencode)
qed

lemma serializeTuple_piece: "serializeTuple t \<noteq> [] \<and> CHR ''&'' \<notin> set (serializeTuple t)"
  using urlencode_plain by (auto simp: serializeTuple_def)

lemma urlencodedParse_serialize:
  assumes "\<forall>t \<in> set tuples. decoded t"
  shows "urlencodedParse (urlencodedSerialize tuples) = tuples"
proof (cases tuples)
  case Nil
  then show ?thesis by (simp add: urlencodedParse_def urlencodedSerialize_def)
next
  case (Cons t ts)
  then have "splitOn (CHR ''&'') (join ''&'' (map serializeTuple tuples)) = map serializeTuple tuples"
    using serializeTuple_piece by (intro splitOn_join) auto
  moreover have "filter (\<lambda>piece. piece \<noteq> []) (map serializeTuple tuples) = map serializeTuple tuples"
    using serializeTuple_piece by (simp add: filter_id_conv)
  moreover have "map parseTuple (map serializeTuple tuples) = tuples"
    using assms by (simp add: map_idI parseTuple_serializeTuple)
  ultimately show ?thesis
    by (simp add: urlencodedParse_def urlencodedSerialize_def)
qed

lemma decoded_parseTuple: "decoded (parseTuple piece)"
  by (simp add: decoded_def parseTuple_def decodeComponent_def utf8Decode_idem)

lemma decoded_urlencodedParse: "t \<in> set (urlencodedParse q) \<Longrightarrow> decoded t"
  using decoded_parseTuple by (auto simp: urlencodedParse_def)

lemma list_ex_name: "list_ex (\<lambda>t. fst t = m) tuples = (m \<in> fst ` set tuples)"
  by (induction tuples) auto

lemma setFirst_names: "fst ` set (setFirst name v tuples) = fst ` set tuples"
  by (induction tuples) auto

lemma filter_name_empty: "m \<notin> fst ` set tuples \<Longrightarrow> filter (\<lambda>t. fst t = m) tuples = []"
  by (induction tuples) auto

lemma filter_other_names: "m \<notin> fst ` set (filter (\<lambda>t. fst t \<noteq> m) tuples)"
  by (induction tuples) auto

lemma filter_other_id: "m \<notin> fst ` set tuples \<Longrightarrow> filter (\<lambda>t. fst t \<noteq> m) tuples = tuples"
  by (induction tuples) auto

lemma setFirst_filter_same:
  "name \<in> fst ` set tuples \<Longrightarrow>
     filter (\<lambda>t. fst t = name) (setFirst name v tuples) = [(name, v)]"
  by (induction tuples) (auto simp: filter_name_empty filter_other_names)

lemma setFirst_decoded:
  "decoded (name, v) \<Longrightarrow> \<forall>t \<in> set tuples. decoded t \<Longrightarrow> \<forall>t \<in> set (setFirst name v tuples). decoded t"
  by (induction tuples) auto

lemma setFirst_fixed:
  "filter (\<lambda>t. fst t = name) tuples = [(name, v)] \<Longrightarrow> setFirst name v tuples = tuples"
proof (induction tuples)
  case Nil
  then show ?case by simp
next
  case (Cons t ts)
  show ?case
  proof (cases "fst t = name")
    case True
    with Cons.prems have t: "t = (name, v)" and "filter (\<lambda>t. fst t = name) ts = []"
      by simp_all
    then have "name \<notin> fst ` set ts"
      by (auto simp: filter_empty_conv)
    then have "filter (\<lambda>t. fst t \<noteq> name) ts = ts"
      by (rule filter_other_id)
    with True t show ?thesis by simp
  next
    case False
    with Cons show ?thesis by simp
  qed
qed

lemma setTuple_filter_same: "filter (\<lambda>t. fst t = name) (setTuple name v tuples) = [(name, v)]"
  by (simp add: setTuple_def setFirst_filter_same list_ex_name filter_name_empty)

lemma setTuple_names: "fst ` set (setTuple name v tuples) = insert name (fst ` set tuples)"
  by (auto simp: setTuple_def setFirst_names list_ex_name)

lemma setTuple_decoded:
  assumes "decoded (name, v)" and "\<forall>t \<in> set tuples. decoded t"
  shows "\<forall>t \<in> set (setTuple name v tuples). decoded t"
proof (cases "list_ex (\<lambda>t. fst t = name) tuples")
  case True
  then show ?thesis
    using setFirst_decoded [OF assms] by (simp add: setTuple_def)
next
  case False
  then show ?thesis
    using assms by (simp add: setTuple_def)
qed

lemma setTuple_fixed:
  "filter (\<lambda>t. fst t = name) tuples = [(name, v)] \<Longrightarrow> setTuple name v tuples = tuples"
proof -
  assume f: "filter (\<lambda>t. fst t = name) tuples = [(name, v)]"
  have "name \<in> fst ` set tuples"
  proof (rule ccontr)
    assume "name \<notin> fst ` set tuples"
    then have "filter (\<lambda>t. fst t = name) tuples = []"
      by (rule filter_name_empty)
    with f show False by simp
  qed
  with f show ?thesis
    by (simp add: setTuple_def setFirst_fixed list_ex_name)
qed

lemma setTuple_nonempty: "setTuple name v tuples \<noteq> []"
  using setTuple_filter_same [of name v tuples] by auto

lemma urlencodedSerialize_nonempty: "tuples \<noteq> [] \<Longrightarrow> urlencodedSerialize tuples \<noteq> []"
proof (cases tuples)
  case Nil
  assume "tuples \<noteq> []"
  with Nil show ?thesis by simp
next
  case (Cons t ts)
  then show ?thesis
    using serializeTuple_piece [of t] by (cases ts) (simp_all add: urlencodedSerialize_def)
qed

lemma updateQuery_fields:
  "searchParams (updateQuery u) = searchParams u"
  "fragment (updateQuery u) = fragment u"
  "opaquePath (updateQuery u) = opaquePath u"
  "query (updateQuery u) =
     (if urlencodedSerialize (searchParams u) = [] then None
      else Some (urlencodedSerialize (searchParams u)))"
  by (simp_all add: updateQuery_def stripTrailingSpaces_def Let_def)

lemma updateQuery_same:
  "urlencodedSerialize (searchParams u) \<noteq> [] \<Longrightarrow>
     query u = Some (urlencodedSerialize (searchParams u)) \<Longrightarrow> updateQuery u = u"
  by (simp add: updateQuery_def Let_def)

lemma normalizedURL_Some:
  assumes "normalizedURL parseURL href = Some u"
  shows "\<exists>fr opaque q fg. parseURL href amazonOrigin = Some (fr, opaque, q, fg)
          \<and> opaquePath u = opaque \<and> fragment u = fg
          \<and> query u = Some (urlencodedSerialize
                (normalizedParams (urlencodedParse (case q of None \<Rightarrow> [] | Some s \<Rightarrow> s))))
          \<and> searchParams u = normalizedParams (urlencodedParse (case q of None \<Rightarrow> [] | Some s \<Rightarrow> s))"
proof -
  from assms obtain fr opaque q fg where p: "parseURL href amazonOrigin = Some (fr, opaque, q, fg)"
    by (auto simp: normalizedURL_def newURL_def split: option.splits)
  have "urlencodedSerialize (normalizedParams ts) \<noteq> []" for ts
    by (simp add: normalizedParams_def setTuple_nonempty urlencodedSerialize_nonempty)
  with assms p show ?thesis
    by (auto simp: normalizedURL_def newURL_def searchParams_set_def searchParams_delete_def
        updateQuery_fields normalizedParams_def)
qed

lemma decoded_th: "decoded (''th'', ''1'')"
  by (simp add: decoded_def utf8Unit_def byte_def)

lemma normalizedParams_props:
  assumes "\<forall>t \<in> set tuples. decoded t"
  shows "\<forall>t \<in> set (normalizedParams tuples). decoded t"
    and "''psc'' \<notin> fst ` set (normalizedParams tuples)"
    and "''ref_'' \<notin> fst ` set (normalizedParams tuples)"
    and "filter (\<lambda>t. fst t = ''th'') (normalizedParams tuples) = [(''th'', ''1'')]"
proof -
  show "\<forall>t \<in> set (normalizedParams tuples). decoded t"
    unfolding normalizedParams_def using assms by (intro setTuple_decoded decoded_th) simp
  show "''psc'' \<notin> fst ` set (normalizedParams tuples)"
    by (auto simp: normalizedParams_def setTuple_names)
  show "''ref_'' \<notin> fst ` set (normalizedParams tuples)"
    by (auto simp: normalizedParams_def setTuple_names)
  show "filter (\<lambda>t. fst t = ''th'') (normalizedParams tuples) = [(''th'', ''1'')]"
    by (simp add: normalizedParams_def setTuple_filter_same)
qed

lemma normalizedParams_fixed:
  assumes "\<forall>t \<in> set tuples. decoded t"
  shows "filter (\<lambda>t. fst t \<noteq> ''psc'') (normalizedParams tuples) = normalizedParams tuples"
    and "filter (\<lambda>t. fst t \<noteq> ''ref_'') (normalizedParams tuples) = normalizedParams tuples"
    and "setTuple ''th'' ''1'' (normalizedParams tuples) = normalizedParams tuples"
  using normalizedParams_props [OF assms] by (simp_all add: filter_other_id setTuple_fixed)

text \<open>
  C3. When the href resolves, the normalised link is the serialised URL, whose query read
  back holds no parameter named psc, none named ref_, and exactly one named th, of
  value 1.
\<close>

theorem normalizer_parameters:
  assumes "normalizedURL parseURL href = Some u"
  shows "normalizeLink parseURL href = Some (toString u)
     \<and> toString u =
         front u @ ''?'' @ urlencodedSerialize (queryParameters u)
         @ (case fragment u of None \<Rightarrow> [] | Some f \<Rightarrow> CHR ''#'' # f)
     \<and> ''psc'' \<notin> fst ` set (queryParameters u)
     \<and> ''ref_'' \<notin> fst ` set (queryParameters u)
     \<and> filter (\<lambda>t. fst t = ''th'') (queryParameters u) = [(''th'', ''1'')]"
proof -
  from normalizedURL_Some [OF assms] obtain q where
    u: "query u = Some (urlencodedSerialize
               (normalizedParams (urlencodedParse (case q of None \<Rightarrow> [] | Some s \<Rightarrow> s))))"
    by blast
  let ?ts = "urlencodedParse (case q of None \<Rightarrow> [] | Some s \<Rightarrow> s)"
  have d: "\<forall>t \<in> set ?ts. decoded t"
    using decoded_urlencodedParse by blast
  note props = normalizedParams_props [OF d]
  have qp: "queryParameters u = normalizedParams ?ts"
    using u props(1) by (simp add: queryParameters_def urlencodedParse_serialize)
  have "toString u = front u @ ''?'' @ urlencodedSerialize (queryParameters u)
         @ (case fragment u of None \<Rightarrow> [] | Some f \<Rightarrow> CHR ''#'' # f)"
    unfolding qp using u by (simp add: toString_def)
  with assms props qp show ?thesis
    by (simp add: normalizeLink_def)
qed

theorem normalizer_parameters_witness:
  "normalizedURL exampleParser ''/dp/B000X?psc=1&ref_=abc''
     = Some \<lparr>front = ''https://www.amazon.com/dp/B000X'', opaquePath = False,
             query = Some ''th=1'', fragment = None, searchParams = [(''th'', ''1'')]\<rparr>
   \<and> normalizeLink exampleParser ''/dp/B000X?psc=1&ref_=abc''
     = Some ''https://www.amazon.com/dp/B000X?th=1''
   \<and> ''psc'' \<notin> fst ` set (queryParameters \<lparr>front = ''https://www.amazon.com/dp/B000X'',
             opaquePath = False, query = Some ''th=1'', fragment = None,
             searchParams = [(''th'', ''1'')]\<rparr>)"
proof -
  let ?u = "\<lparr>front = ''https://www.amazon.com/dp/B000X'', opaquePath = False,
             query = Some ''th=1'', fragment = None, searchParams = [(''th'', ''1'')]\<rparr>"
  have h: "normalizedURL exampleParser ''/dp/B000X?psc=1&ref_=abc'' = Some ?u"
    by code_simp
  have s: "toString ?u = ''https://www.amazon.com/dp/B000X?th=1''"
    by (simp add: toString_def)
  from normalizer_parameters [OF h] h s show ?thesis
    by simp
qed

text \<open>
  A link with an opaque path that ends in a space: when the removal of psc empties the
  parameter list, the space is stripped from the path.
\<close>

lemma normalizeLink_opaque_path:
  "normalizeLink exampleParser ''data:space ?psc=1'' = Some ''data:space?th=1''"
  by code_simp

text \<open>
  The normalised URL is a fixed point of the three updates: made again from its own
  components, with the parameter list read from its query, it is normalised to itself.
  Whether the normalised link, as a string, is normalised to itself then rests on the
  platform's parser alone: on its reading the serialised URL back as these components.
\<close>

lemma normalized_components_fixed:
  assumes "normalizedURL parseURL href = Some u"
    and "parse (toString u) amazonOrigin = Some (front u, opaquePath u, query u, fragment u)"
  shows "normalizedURL parse (toString u) = Some u"
proof -
  from normalizedURL_Some [OF assms(1)] obtain q where
    qu: "query u = Some (urlencodedSerialize
               (normalizedParams (urlencodedParse (case q of None \<Rightarrow> [] | Some s \<Rightarrow> s))))"
    and sp: "searchParams u = normalizedParams (urlencodedParse (case q of None \<Rightarrow> [] | Some s \<Rightarrow> s))"
    by blast
  let ?ts = "urlencodedParse (case q of None \<Rightarrow> [] | Some s \<Rightarrow> s)"
  let ?n = "normalizedParams ?ts"
  have d: "\<forall>t \<in> set ?ts. decoded t"
    using decoded_urlencodedParse by blast
  note props = normalizedParams_props [OF d]
  have reread: "urlencodedParse (urlencodedSerialize ?n) = ?n"
    using props(1) by (rule urlencodedParse_serialize)
  have made: "newURL parse (toString u) amazonOrigin = Some u"
    using assms(2) qu sp reread by (simp add: newURL_def)
  have nonempty: "urlencodedSerialize (searchParams u) \<noteq> []"
    unfolding sp by (simp add: normalizedParams_def setTuple_nonempty urlencodedSerialize_nonempty)
  have same: "updateQuery u = u"
    using nonempty qu sp by (intro updateQuery_same) simp_all
  note fixed = normalizedParams_fixed [OF d, folded sp]
  have "searchParams_delete ''psc'' u = u" "searchParams_delete ''ref_'' u = u"
    "searchParams_set ''th'' ''1'' u = u"
    using fixed same by (simp_all add: searchParams_delete_def searchParams_set_def)
  with made show ?thesis
    by (simp add: normalizedURL_def)
qed

section \<open>Properties of the item extractor and of the link fallback\<close>

lemma scrapeItems_filter:
  "scrapeItems parseURL els items = items @ filter retained (map (scrapeItem parseURL) els)"
  by (induction els arbitrary: items) (simp_all add: Let_def)

lemma resolveLink_frame:
  "itemName (resolveLink d r item) = itemName item
   \<and> manufacturer (resolveLink d r item) = manufacturer item
   \<and> options (resolveLink d r item) = options item
   \<and> productLink (resolveLink d r item) = productLink item"
  by (simp add: resolveLink_def split: searchResult.splits option.splits)

lemma resolveLink_only_link:
  "resolveLink d r item = item\<lparr>nonAmazonLink := nonAmazonLink (resolveLink d r item)\<rparr>"
  by (simp add: resolveLink_def split: searchResult.splits option.splits)

lemma length_resolveLinks: "length (resolveLinks d search k items) = length items"
  by (induction items arbitrary: k) simp_all

lemma resolveLinks_nth:
  "i < length items \<Longrightarrow>
     (nonAmazonLink (items ! i) \<noteq> [] \<longrightarrow> resolveLinks d search k items ! i = items ! i)
     \<and> resolveLinks d search k items ! i
         = (items ! i)\<lparr>nonAmazonLink := nonAmazonLink (resolveLinks d search k items ! i)\<rparr>"
proof (induction items arbitrary: k i)
  case Nil
  then show ?case by simp
next
  case (Cons item items)
  show ?case
  proof (cases i)
    case 0
    then show ?thesis
      using resolveLink_only_link [of d "search k (duckUrl item)" item] by simp
  next
    case (Suc j)
    with Cons.prems have "j < length items"
      by simp
    from Cons.IH [OF this] Suc show ?thesis
      by simp
  qed
qed

lemma resolveLinks_retained:
  "\<forall>item \<in> set items. retained item \<Longrightarrow> \<forall>item \<in> set (resolveLinks d search k items). retained item"
proof (induction items arbitrary: k)
  case Nil
  then show ?case by simp
next
  case (Cons item items)
  have "retained (resolveLink d r item)" if "nonAmazonLink item = []" for r
    using Cons.prems that resolveLink_frame [of d r item] by (simp add: retained_def)
  with Cons show ?case
    by simp
qed

text \<open>
  C2. The items kept are the scraped candidates with a name, a product link or an
  external link; no item with all three empty is in the sequence, before or after the
  link fallback.
\<close>

theorem retention_invariant:
  "scrapeItems parseURL els [] = filter retained (map (scrapeItem parseURL) els)
   \<and> (\<forall>item \<in> set (scrapeItems parseURL els []).
         \<not> (itemName item = [] \<and> productLink item = [] \<and> nonAmazonLink item = []))
   \<and> (\<forall>item \<in> set (resolveLinks d search k (scrapeItems parseURL els [])).
         \<not> (itemName item = [] \<and> productLink item = [] \<and> nonAmazonLink item = []))"
proof -
  have eq: "scrapeItems parseURL els [] = filter retained (map (scrapeItem parseURL) els)"
    by (simp add: scrapeItems_filter)
  have kept: "\<forall>item \<in> set (scrapeItems parseURL els []). retained item"
    by (simp add: eq)
  have resolved: "\<forall>item \<in> set (resolveLinks d search k (scrapeItems parseURL els [])). retained item"
    using kept by (rule resolveLinks_retained)
  have r: "retained item \<Longrightarrow> \<not> (itemName item = [] \<and> productLink item = [] \<and> nonAmazonLink item = [])"
    for item
    by (auto simp: retained_def)
  from kept r have "\<forall>item \<in> set (scrapeItems parseURL els []).
         \<not> (itemName item = [] \<and> productLink item = [] \<and> nonAmazonLink item = [])"
    by blast
  moreover from resolved r
  have "\<forall>item \<in> set (resolveLinks d search k (scrapeItems parseURL els [])).
         \<not> (itemName item = [] \<and> productLink item = [] \<and> nonAmazonLink item = [])"
    by blast
  ultimately show ?thesis
    using eq by blast
qed

theorem retention_invariant_witness:
  "scrapeItems exampleParser
     [\<lparr>nonAsin = False, nameSpan = None,
       nameAnchor = Some (''Desk Lamp'', Some ''/dp/B000X?psc=1&ref_=abc''), byline = None,
       twisterTexts = [''Black'', ''US Plug'']\<rparr>,
      \<lparr>nonAsin = True, nameSpan = None, nameAnchor = None, byline = None, twisterTexts = []\<rparr>] []
     = [\<lparr>itemName = ''Desk Lamp'', manufacturer = [], options = [''Black'', ''US Plug''],
         productLink = ''https://www.amazon.com/dp/B000X?th=1'', nonAmazonLink = []\<rparr>]
   \<and> \<not> (itemName \<lparr>itemName = ''Desk Lamp'', manufacturer = [], options = [''Black'', ''US Plug''],
         productLink = ''https://www.amazon.com/dp/B000X?th=1'', nonAmazonLink = []\<rparr> = []
        \<and> productLink \<lparr>itemName = ''Desk Lamp'', manufacturer = [], options = [''Black'', ''US Plug''],
         productLink = ''https://www.amazon.com/dp/B000X?th=1'', nonAmazonLink = []\<rparr> = []
        \<and> nonAmazonLink \<lparr>itemName = ''Desk Lamp'', manufacturer = [], options = [''Black'', ''US Plug''],
         productLink = ''https://www.amazon.com/dp/B000X?th=1'', nonAmazonLink = []\<rparr> = [])"
proof -
  let ?els = "[\<lparr>nonAsin = False, nameSpan = None,
       nameAnchor = Some (''Desk Lamp'', Some ''/dp/B000X?psc=1&ref_=abc''), byline = None,
       twisterTexts = [''Black'', ''US Plug'']\<rparr>,
      \<lparr>nonAsin = True, nameSpan = None, nameAnchor = None, byline = None, twisterTexts = []\<rparr>]"
  let ?lamp = "\<lparr>itemName = ''Desk Lamp'', manufacturer = [], options = [''Black'', ''US Plug''],
         productLink = ''https://www.amazon.com/dp/B000X?th=1'', nonAmazonLink = []\<rparr>"
  have run: "scrapeItems exampleParser ?els [] = [?lamp]"
    by code_simp
  note inv = retention_invariant [of exampleParser ?els, THEN conjunct2, THEN conjunct1]
  have "?lamp \<in> set (scrapeItems exampleParser ?els [])"
    unfolding run by simp
  from bspec [OF inv this] run show ?thesis
    by blast
qed

text \<open>
  C9. The link fallback keeps the number and order of the items, leaves an item with an
  external link as it is, and changes nothing but the external link of any other item.
\<close>

theorem fallback_frame:
  "length (resolveLinks d search k items) = length items
   \<and> map itemName (resolveLinks d search k items) = map itemName items
   \<and> map manufacturer (resolveLinks d search k items) = map manufacturer items
   \<and> map options (resolveLinks d search k items) = map options items
   \<and> map productLink (resolveLinks d search k items) = map productLink items
   \<and> (\<forall>i < length items.
         (nonAmazonLink (items ! i) \<noteq> [] \<longrightarrow> resolveLinks d search k items ! i = items ! i)
         \<and> resolveLinks d search k items ! i
             = (items ! i)\<lparr>nonAmazonLink := nonAmazonLink (resolveLinks d search k items ! i)\<rparr>)"
proof -
  have "map itemName (resolveLinks d search k items) = map itemName items
   \<and> map manufacturer (resolveLinks d search k items) = map manufacturer items
   \<and> map options (resolveLinks d search k items) = map options items
   \<and> map productLink (resolveLinks d search k items) = map productLink items"
    by (induction items arbitrary: k) (simp_all add: resolveLink_frame)
  then show ?thesis
    using resolveLinks_nth [of _ items d search k] by (simp add: length_resolveLinks)
qed


theorem fallback_frame_witness:
  "resolveLinks (\<lambda>s. Some s) (\<lambda>k url. OrganicAnchor (Some ''https://maker.example/lamp'')) 0
     [\<lparr>itemName = ''Desk Lamp'', manufacturer = [], options = [],
       productLink = ''https://www.amazon.com/dp/B000X?th=1'', nonAmazonLink = []\<rparr>,
      \<lparr>itemName = [], manufacturer = [], options = [], productLink = [],
       nonAmazonLink = ''https://other.example/''\<rparr>] ! 1
   = \<lparr>itemName = [], manufacturer = [], options = [], productLink = [],
       nonAmazonLink = ''https://other.example/''\<rparr>"
proof -
  let ?items = "[\<lparr>itemName = ''Desk Lamp'', manufacturer = [], options = [],
       productLink = ''https://www.amazon.com/dp/B000X?th=1'', nonAmazonLink = []\<rparr>,
      \<lparr>itemName = [], manufacturer = [], options = [], productLink = [],
       nonAmazonLink = ''https://other.example/''\<rparr>]"
  note frame = fallback_frame [of "\<lambda>s. Some s"
      "\<lambda>k url. OrganicAnchor (Some ''https://maker.example/lamp'')" 0 ?items]
  note each = frame [THEN conjunct2, THEN conjunct2, THEN conjunct2, THEN conjunct2, THEN conjunct2]
  have "(1::nat) < length ?items"
    by simp
  from each [rule_format, OF this] show ?thesis
    by simp
qed

section \<open>Properties of the scroll-completion detector\<close>

lemma scrollLoop_shown:
  "m < maxScrolls \<Longrightarrow> k \<le> m \<Longrightarrow> endOfList m = Shown \<Longrightarrow>
     (\<forall>n. k \<le> n \<and> n < m \<longrightarrow> endOfList n \<noteq> Shown) \<Longrightarrow>
     scrollLoop endOfList k = (True, m)"
proof (induction "m - k" arbitrary: k)
  case 0
  then have "k = m" by simp
  with 0 show ?case by (simp add: scrollLoop.simps [of endOfList m])
next
  case (Suc d)
  then have "k < m" "endOfList k \<noteq> Shown" "d = m - (k + 1)" "k + 1 \<le> m"
    by auto
  moreover from Suc.prems have "\<forall>n. k + 1 \<le> n \<and> n < m \<longrightarrow> endOfList n \<noteq> Shown"
    by auto
  ultimately have "scrollLoop endOfList (k + 1) = (True, m)"
    using Suc.hyps(1) Suc.prems(1,3) by blast
  with \<open>k < m\<close> \<open>endOfList k \<noteq> Shown\<close> Suc.prems(1) show ?case
    by (simp add: scrollLoop.simps [of endOfList k])
qed

lemma scrollLoop_never:
  "k \<le> maxScrolls \<Longrightarrow> (\<forall>n. k \<le> n \<and> n < maxScrolls \<longrightarrow> endOfList n \<noteq> Shown) \<Longrightarrow>
     scrollLoop endOfList k = (False, maxScrolls)"
proof (induction "maxScrolls - k" arbitrary: k)
  case 0
  then have "k = maxScrolls" by simp
  then show ?case by (simp add: scrollLoop.simps [of endOfList maxScrolls])
next
  case (Suc d)
  then have "k < maxScrolls" "endOfList k \<noteq> Shown" "d = maxScrolls - (k + 1)" "k + 1 \<le> maxScrolls"
    by auto
  moreover from Suc.prems have "\<forall>n. k + 1 \<le> n \<and> n < maxScrolls \<longrightarrow> endOfList n \<noteq> Shown"
    by auto
  ultimately have "scrollLoop endOfList (k + 1) = (False, maxScrolls)"
    using Suc.hyps(1) by blast
  with \<open>k < maxScrolls\<close> \<open>endOfList k \<noteq> Shown\<close> show ?case
    by (simp add: scrollLoop.simps [of endOfList k])
qed

lemma stabilize_reached: "10000 \<le> c \<Longrightarrow> stabilize c t looks = Stable"
  by (cases looks) auto

lemma stabilize_visible:
  "visibleFrom gap t looks \<Longrightarrow> looks \<noteq> [] \<Longrightarrow>
     10000 \<le> c + gap + 500 * (int (length looks) - 1) \<Longrightarrow> stabilize c t looks = Stable"
proof (induction looks arbitrary: gap t c)
  case Nil
  then show ?case by simp
next
  case (Cons l looks)
  obtain now look where l: "l = (now, look)"
    by (cases l)
  with Cons.prems have shown: "look = Shown" and later: "t + gap \<le> now"
    and rest: "visibleFrom 500 now looks"
    by simp_all
  show ?case
  proof (cases "c < 10000")
    case False
    then show ?thesis by (simp add: stabilize_reached)
  next
    case True
    show ?thesis
    proof (cases looks)
      case Nil
      with Cons.prems later have "10000 \<le> c + (now - t)"
        by simp
      with Nil l shown True show ?thesis
        by simp
    next
      case (Cons l' looks')
      with Cons.prems later
      have "10000 \<le> (c + (now - t)) + 500 + 500 * (int (length looks) - 1)"
        by simp
      with Cons.IH [OF rest] Cons
      have "stabilize (c + (now - t)) now looks = Stable"
        by simp
      with l shown True show ?thesis
        by simp
    qed
  qed
qed

text \<open>
  C7. Attempts are counted from 1, so the look of attempt 5 is the one made with
  \<^verbatim>\<open>scrollCount\<close> at 4. With the heading first visible at attempt 5 and visible at every
  look of the stabilising loop, these looks being at least 500 milliseconds apart on the
  clock and 21 of them being taken, the detector is done with the flag complete, within
  the budget of 30; with the heading never visible it is done with the flag incomplete
  when \<^verbatim>\<open>scrollCount\<close> is 30.
\<close>

theorem detector_scenarios:
  "((\<forall>n<4. endOfList n \<noteq> Shown) \<and> endOfList 4 = Shown
      \<and> visibleFrom 0 started looks \<and> 21 \<le> length looks
     \<longrightarrow> scrollLoop endOfList 0 = (True, 4) \<and> 4 < maxScrolls
         \<and> scrollToEnd endOfList started looks = Done Complete 4)
   \<and> ((\<forall>n. endOfList n \<noteq> Shown)
     \<longrightarrow> scrollLoop endOfList 0 = (False, 30)
         \<and> scrollToEnd endOfList started looks = Done Incomplete 30)"
proof (intro conjI impI)
  assume a: "(\<forall>n<4. endOfList n \<noteq> Shown) \<and> endOfList 4 = Shown
      \<and> visibleFrom 0 started looks \<and> 21 \<le> length looks"
  then have loop: "scrollLoop endOfList 0 = (True, 4)"
    by (intro scrollLoop_shown) (simp_all add: maxScrolls_def)
  from a have "looks \<noteq> []" and "10000 \<le> 0 + 0 + 500 * (int (length looks) - 1)"
    by auto
  with a have "stabilize 0 started looks = Stable"
    by (intro stabilize_visible [of 0]) simp_all
  with loop show "scrollLoop endOfList 0 = (True, 4)" and "4 < maxScrolls"
    and "scrollToEnd endOfList started looks = Done Complete 4"
    by (simp_all add: scrollToEnd_def maxScrolls_def)
next
  assume "\<forall>n. endOfList n \<noteq> Shown"
  then have "scrollLoop endOfList 0 = (False, maxScrolls)"
    by (intro scrollLoop_never) simp_all
  then show "scrollLoop endOfList 0 = (False, 30)"
    and "scrollToEnd endOfList started looks = Done Incomplete 30"
    by (simp_all add: scrollToEnd_def maxScrolls_def)
qed

theorem detector_scenarios_witness:
  "scrollToEnd (\<lambda>n. if n < 4 then Hidden else Shown) 0
     (map (\<lambda>k. (500 * int k, Shown)) [0..<21]) = Done Complete 4
   \<and> scrollToEnd (\<lambda>n. Absent) 0 [] = Done Incomplete 30"
proof -
  let ?late = "\<lambda>n::nat. if n < 4 then Hidden else Shown"
  let ?looks = "map (\<lambda>k. (500 * int k, Shown)) [0..<21]"
  have "(\<forall>n<4. ?late n \<noteq> Shown) \<and> ?late 4 = Shown"
    by simp
  moreover have "visibleFrom 0 0 ?looks"
    by code_simp
  moreover have "21 \<le> length ?looks"
    by simp
  ultimately have "scrollToEnd ?late 0 ?looks = Done Complete 4"
    using detector_scenarios [of ?late 0 ?looks] by blast
  moreover have "scrollToEnd (\<lambda>n. Absent) 0 [] = Done Incomplete 30"
    using detector_scenarios [of "\<lambda>n. Absent" 0 "[]"] by simp
  ultimately show ?thesis
    by blast
qed

text \<open>
  What the stabilising loop does ensure when the heading is in the page at every look:
  it ends as stable only after a run of looks that all found the heading visible, the
  last of them at least the threshold after the look before the run, which found the
  heading hidden, or, with no such look, with the time of the run and the time
  accumulated before reaching the threshold.
\<close>

lemma stabilize_stable_in_page:
  assumes "stabilize c t looks = Stable" and "c < 10000"
    and "\<forall>l \<in> set looks. snd l \<noteq> Absent"
  shows "\<exists>run post. run \<noteq> [] \<and> (\<forall>l \<in> set run. snd l = Shown)
           \<and> ((looks = run @ post \<and> 10000 \<le> c + (fst (last run) - t))
                \<or> (\<exists>pre h. looks = pre @ (h, Hidden) # run @ post
                       \<and> 10000 \<le> fst (last run) - h))"
  using assms
proof (induction looks arbitrary: c t)
  case Nil
  then show ?case by simp
next
  case (Cons l rest)
  obtain now look where l: "l = (now, look)"
    by (cases l)
  from Cons.prems(3) have inPage: "\<forall>l \<in> set rest. snd l \<noteq> Absent"
    by simp
  show ?case
  proof (cases look)
    case Absent
    with Cons.prems(3) l show ?thesis by simp
  next
    case Threw
    with Cons.prems(1,2) l show ?thesis by simp
  next
    case Shown
    show ?thesis
    proof (cases "c + (now - t) < 10000")
      case False
      have "[(now, Shown)] \<noteq> [] \<and> (\<forall>l \<in> set [(now, Shown)]. snd l = Shown)
          \<and> l # rest = [(now, Shown)] @ rest
          \<and> 10000 \<le> c + (fst (last [(now, Shown)]) - t)"
        using False l Shown by simp
      then show ?thesis by blast
    next
      case True
      from Cons.prems(1,2) l Shown have "stabilize (c + (now - t)) now rest = Stable"
        by simp
      from Cons.IH [OF this True inPage]
      obtain run post where run: "run \<noteq> []" "\<forall>l \<in> set run. snd l = Shown"
        and alt: "(rest = run @ post \<and> 10000 \<le> c + (now - t) + (fst (last run) - now))
                \<or> (\<exists>pre h. rest = pre @ (h, Hidden) # run @ post
                       \<and> 10000 \<le> fst (last run) - h)"
        by blast
      from alt show ?thesis
      proof
        assume a: "rest = run @ post \<and> 10000 \<le> c + (now - t) + (fst (last run) - now)"
        with run l Shown
        have "(now, Shown) # run \<noteq> [] \<and> (\<forall>l \<in> set ((now, Shown) # run). snd l = Shown)
            \<and> l # rest = ((now, Shown) # run) @ post
            \<and> 10000 \<le> c + (fst (last ((now, Shown) # run)) - t)"
          by simp
        then show ?thesis by blast
      next
        assume "\<exists>pre h. rest = pre @ (h, Hidden) # run @ post \<and> 10000 \<le> fst (last run) - h"
        then obtain pre h where "rest = pre @ (h, Hidden) # run @ post"
          and "10000 \<le> fst (last run) - h"
          by blast
        then have "l # rest = (l # pre) @ (h, Hidden) # run @ post \<and> 10000 \<le> fst (last run) - h"
          by simp
        with run show ?thesis by blast
      qed
    qed
  next
    case Hidden
    with Cons.prems(1,2) l have "stabilize 0 now rest = Stable"
      by simp
    from Cons.IH [OF this _ inPage]
    obtain run post where run: "run \<noteq> []" "\<forall>l \<in> set run. snd l = Shown"
      and alt: "(rest = run @ post \<and> 10000 \<le> 0 + (fst (last run) - now))
              \<or> (\<exists>pre h. rest = pre @ (h, Hidden) # run @ post
                     \<and> 10000 \<le> fst (last run) - h)"
      by auto
    from alt show ?thesis
    proof
      assume "rest = run @ post \<and> 10000 \<le> 0 + (fst (last run) - now)"
      with l Hidden have "l # rest = [] @ (now, Hidden) # run @ post \<and> 10000 \<le> fst (last run) - now"
        by simp
      with run show ?thesis by blast
    next
      assume "\<exists>pre h. rest = pre @ (h, Hidden) # run @ post \<and> 10000 \<le> fst (last run) - h"
      then obtain pre h where "rest = pre @ (h, Hidden) # run @ post"
        and "10000 \<le> fst (last run) - h"
        by blast
      then have "l # rest = (l # pre) @ (h, Hidden) # run @ post \<and> 10000 \<le> fst (last run) - h"
        by simp
      with run show ?thesis by blast
    qed
  qed
qed

text \<open>
  C8. The stabilising loop is to end as complete only when the heading has been visible
  without a gap for ten seconds. On the run below it does otherwise: the heading is
  visible at the first look, gone from the page at the nineteen looks of the next nine
  and a half seconds, and visible again at the last, and the loop ends as stable, having
  added the whole time since the first look. Had the heading been in the page but hidden
  at those looks, the loop would have started again from zero.
\<close>

theorem stabilize_counts_absence:
  "stabilize 0 0 ((500, Shown) # map (\<lambda>k. (500 * int k, Absent)) [2..<21] @ [(10500, Shown)])
     = Stable
   \<and> scrollToEnd (\<lambda>n. Shown) 0
       ((500, Shown) # map (\<lambda>k. (500 * int k, Absent)) [2..<21] @ [(10500, Shown)])
     = Done Complete 0
   \<and> stabilize 0 0 ((500, Shown) # map (\<lambda>k. (500 * int k, Hidden)) [2..<21] @ [(10500, Shown)])
     = StillWaiting"
  by code_simp

section \<open>Properties of the pipeline\<close>

lemma startsWith_iff: "startsWith s p = (\<exists>rest. s = p @ rest)"
  by (induction s p rule: startsWith.induct) auto

text \<open>
  C1, as the code has it. When the CAPTCHA prompt is still there after the answer was
  submitted, or the list name is not resolved (the name element is absent, or the look
  for it throws, or the name comes out as the default), the run ends there with exit
  code 1: the URL has been navigated to, no file is written for it, what was written
  before stays, and the remaining URLs are not processed.
\<close>

theorem failed_url_exits_process:
  assumes "captcha (web k wishlistUrl) = Submitted True
           \<or> resolveListName (listName (web k wishlistUrl)) = ''wishlist''"
  shows "processWishlist parseURL decodeURIComponent (web k wishlistUrl) = Exit 1
     \<and> processAll parseURL decodeURIComponent web k (wishlistUrl # rest) r
         = r\<lparr>navigated := navigated r @ [wishlistUrl], status := Exited 1\<rparr>
     \<and> resolveListName NameAbsent = ''wishlist'' \<and> resolveListName NameThrew = ''wishlist''"
proof -
  from assms have "processWishlist parseURL decodeURIComponent (web k wishlistUrl) = Exit 1"
    by (auto simp: processWishlist_def)
  then show ?thesis
    by (simp add: resolveListName_def)
qed

theorem failed_url_exits_process_witness:
  "processAll exampleParser (\<lambda>s. Some s)
     (\<lambda>k url. if k = 1 then examplePage (Submitted True) (NameText ''Gifts'')
               else examplePage NoPrompt (NameText ''Gifts'')) 1
     [''https://www.amazon.com/hz/wishlist/ls/B'', ''https://www.amazon.com/hz/wishlist/ls/C'']
     \<lparr>navigated = [''https://www.amazon.com/hz/wishlist/ls/A''],
      files = [(''Gifts.csv'', ''Item Name,Manufacturer,Product Link,Non-Amazon Link'')],
      status = Running\<rparr>
   = \<lparr>navigated = [''https://www.amazon.com/hz/wishlist/ls/A'',
                     ''https://www.amazon.com/hz/wishlist/ls/B''],
      files = [(''Gifts.csv'', ''Item Name,Manufacturer,Product Link,Non-Amazon Link'')],
      status = Exited 1\<rparr>"
proof -
  let ?web = "\<lambda>k url. if k = (1::nat) then examplePage (Submitted True) (NameText ''Gifts'')
               else examplePage NoPrompt (NameText ''Gifts'')"
  have "captcha (?web 1 ''https://www.amazon.com/hz/wishlist/ls/B'') = Submitted True"
    by (simp add: examplePage_def)
  then have "captcha (?web 1 ''https://www.amazon.com/hz/wishlist/ls/B'') = Submitted True
      \<or> resolveListName (listName (?web 1 ''https://www.amazon.com/hz/wishlist/ls/B'')) = ''wishlist''"
    by (rule disjI1)
  from failed_url_exits_process [of ?web 1 "''https://www.amazon.com/hz/wishlist/ls/B''", OF this,
      THEN conjunct2, THEN conjunct1]
  show ?thesis
    by simp
qed

text \<open>
  C1, as the claim states it, fails. Of two wishlist URLs the first meets a CAPTCHA that
  is still there after the answer, or has no list name; the second, alone, gives a CSV
  file. The run of both ends with exit code 1 after the first: the second is never
  navigated to and no file is written.
\<close>

theorem next_url_not_processed_counterexample:
  "main exampleParser (\<lambda>s. Some s)
     ''https://www.amazon.com/hz/wishlist/ls/A,https://www.amazon.com/hz/wishlist/ls/B''
     (\<lambda>k url. if url = ''https://www.amazon.com/hz/wishlist/ls/A''
               then examplePage (Submitted True) (NameText ''Gifts'')
               else examplePage NoPrompt (NameText ''Gifts''))
   = \<lparr>navigated = [''https://www.amazon.com/hz/wishlist/ls/A''], files = [], status = Exited 1\<rparr>
   \<and> main exampleParser (\<lambda>s. Some s)
     ''https://www.amazon.com/hz/wishlist/ls/A,https://www.amazon.com/hz/wishlist/ls/B''
     (\<lambda>k url. if url = ''https://www.amazon.com/hz/wishlist/ls/A''
               then examplePage NoPrompt NameAbsent
               else examplePage NoPrompt (NameText ''Gifts''))
   = \<lparr>navigated = [''https://www.amazon.com/hz/wishlist/ls/A''], files = [], status = Exited 1\<rparr>
   \<and> main exampleParser (\<lambda>s. Some s) ''https://www.amazon.com/hz/wishlist/ls/B''
     (\<lambda>k url. if url = ''https://www.amazon.com/hz/wishlist/ls/A''
               then examplePage (Submitted True) (NameText ''Gifts'')
               else examplePage NoPrompt (NameText ''Gifts''))
   = \<lparr>navigated = [''https://www.amazon.com/hz/wishlist/ls/B''],
      files = [(''Gifts.csv'', ''Item Name,Manufacturer,Product Link,Non-Amazon Link'')],
      status = Finished\<rparr>"
  by code_simp

text \<open>
  C10. The URLs processed are the comma-separated pieces of the input, trimmed, that
  start with the wishlist prefix, in their order; an input that is empty or white space
  gives none; and with none the process exits with code 1 without navigating anywhere.
\<close>

theorem wishlist_urls_filter:
  "wishlistUrls inputUrl =
     filter (\<lambda>url. startsWith url wishlistPrefix) (map trim (splitOn (CHR '','') inputUrl))
   \<and> startsWith url wishlistPrefix = (\<exists>rest. url = ''https://www.amazon.com/hz/wishlist/ls/'' @ rest)
   \<and> (trim inputUrl = [] \<longrightarrow> wishlistUrls inputUrl = [])
   \<and> (wishlistUrls inputUrl = [] \<longrightarrow>
        main parseURL decodeURIComponent inputUrl web
          = \<lparr>navigated = [], files = [], status = Exited 1\<rparr>)
   \<and> (wishlistUrls inputUrl \<noteq> [] \<longrightarrow>
        main parseURL decodeURIComponent inputUrl web
          = processAll parseURL decodeURIComponent web 0 (wishlistUrls inputUrl)
              \<lparr>navigated = [], files = [], status = Running\<rparr>)"
proof (intro conjI)
  show "wishlistUrls inputUrl =
     filter (\<lambda>url. startsWith url wishlistPrefix) (map trim (splitOn (CHR '','') inputUrl))"
    by (rule wishlistUrls_filter)
  show "startsWith url wishlistPrefix
      = (\<exists>rest. url = ''https://www.amazon.com/hz/wishlist/ls/'' @ rest)"
    unfolding startsWith_iff by (simp add: wishlistPrefix_def)
  show "trim inputUrl = [] \<longrightarrow> wishlistUrls inputUrl = []"
    by (simp add: wishlistUrls_def)
  show "wishlistUrls inputUrl = [] \<longrightarrow>
        main parseURL decodeURIComponent inputUrl web
          = \<lparr>navigated = [], files = [], status = Exited 1\<rparr>"
    by (simp add: main_def)
  show "wishlistUrls inputUrl \<noteq> [] \<longrightarrow>
        main parseURL decodeURIComponent inputUrl web
          = processAll parseURL decodeURIComponent web 0 (wishlistUrls inputUrl)
              \<lparr>navigated = [], files = [], status = Running\<rparr>"
    by (simp add: main_def)
qed

theorem wishlist_urls_filter_witness:
  "wishlistUrls ''  '' = []
   \<and> main exampleParser (\<lambda>s. Some s) ''  '' (\<lambda>k url. examplePage NoPrompt (NameText ''Gifts''))
       = \<lparr>navigated = [], files = [], status = Exited 1\<rparr>
   \<and> wishlistUrls '' https://www.amazon.com/hz/wishlist/ls/A , http://example.com/x''
       = [''https://www.amazon.com/hz/wishlist/ls/A'']"
proof -
  have blank: "trim ''  '' = []"
    by code_simp
  note input1 = wishlist_urls_filter [of "''  ''" _ exampleParser "\<lambda>s. Some s"
      "\<lambda>k url. examplePage NoPrompt (NameText ''Gifts'')"]
  from input1 blank have none: "wishlistUrls ''  '' = []"
    by blast
  with input1 have "main exampleParser (\<lambda>s. Some s) ''  '' (\<lambda>k url. examplePage NoPrompt (NameText ''Gifts''))
       = \<lparr>navigated = [], files = [], status = Exited 1\<rparr>"
    by blast
  moreover have "wishlistUrls '' https://www.amazon.com/hz/wishlist/ls/A , http://example.com/x''
       = [''https://www.amazon.com/hz/wishlist/ls/A'']"
    by code_simp
  ultimately show ?thesis
    using none by blast
qed

end
